theory Spec2Isabelle
  imports Complex_Main
begin

section \<open>Concentration model\<close>

text \<open>
  The notebook computes with IEEE double-precision numbers. In this section and in the
  sections on the residual assembler they are modelled by the real numbers they stand
  for: the statements there are identities between formulas and properties of the layout
  of arrays. Overflow, underflow and NaN in \<open>func\<close> are the subject of the next section,
  and the NaN that the square root of a negative number gives is modelled in the last.

  \<^verbatim>\<open>
  def func(t, C_0, T, logA, E_a, dH, dS):
      R = 8.314
      C_1 = C_0 - C_0 / (exp((dH - T * dS)/(R*T))+1)
      x = C_0 / (exp((dH - T *dS) / (R*T))+1)
      exponential = exp(t * 10**(logA) * exp (-E_a/(R*T)) * (-1)*(1+1/(exp((dH-T*dS)/(R*T)))))
      return x + C_1 * exponential
  \<close>
\<close>

definition func :: "real \<Rightarrow> real \<Rightarrow> real \<Rightarrow> real \<Rightarrow> real \<Rightarrow> real \<Rightarrow> real \<Rightarrow> real" where
  "func t C_0 T logA E_a dH dS =
     (let R = 8.314;
          C_1 = C_0 - C_0 / (exp ((dH - T * dS) / (R * T)) + 1);
          x = C_0 / (exp ((dH - T * dS) / (R * T)) + 1);
          exponential = exp (t * 10 powr logA * exp (- E_a / (R * T)) * (- 1)
                              * (1 + 1 / (exp ((dH - T * dS) / (R * T)))))
      in x + C_1 * exponential)"

text \<open>
  The reference definition, written from the specification's words: the equilibrium
  constant is \<open>Kc = exp (- (dH - T * dS) / (R * T))\<close>.
\<close>

definition predict_spec :: "real \<Rightarrow> real \<Rightarrow> real \<Rightarrow> real \<Rightarrow> real \<Rightarrow> real \<Rightarrow> real \<Rightarrow> real" where
  "predict_spec t C0 T log10_A Ea dH dS =
     (let R = 8.314;
          Kc = exp (- (dH - T * dS) / (R * T));
          C_A_eq = C0 / (Kc + 1);
          kf = 10 powr log10_A * exp (- Ea / (R * T));
          k_total = kf * (1 + 1 / Kc)
      in C_A_eq + (C0 - C_A_eq) * exp (- k_total * t))"

text \<open>
  The two quantities the relaxation curve of \<open>func\<close> is built from, as the code computes
  them: \<open>C_A_eq\<close> is the local \<open>x\<close> of \<open>func\<close>, and \<open>k_total\<close> is the factor that
  multiplies \<open>- t\<close> inside \<open>exponential\<close>.
\<close>

definition C_A_eq :: "real \<Rightarrow> real \<Rightarrow> real \<Rightarrow> real \<Rightarrow> real" where
  "C_A_eq C_0 T dH dS = C_0 / (exp ((dH - T * dS) / (8.314 * T)) + 1)"

definition k_total :: "real \<Rightarrow> real \<Rightarrow> real \<Rightarrow> real \<Rightarrow> real \<Rightarrow> real" where
  "k_total T logA E_a dH dS =
     10 powr logA * exp (- E_a / (8.314 * T)) * (1 + 1 / (exp ((dH - T * dS) / (8.314 * T))))"

lemma func_relaxation:
  "func t C_0 T logA E_a dH dS =
     C_A_eq C_0 T dH dS + (C_0 - C_A_eq C_0 T dH dS) * exp (- (k_total T logA E_a dH dS * t))"
  by (simp add: func_def C_A_eq_def k_total_def Let_def algebra_simps)

lemma k_total_pos: "0 < k_total T logA E_a dH dS"
  unfolding k_total_def by (intro mult_pos_pos add_pos_pos) simp_all

lemma C_A_eq_less: "0 < C_0 \<Longrightarrow> C_A_eq C_0 T dH dS < C_0"
  unfolding C_A_eq_def by (simp add: divide_less_eq add_pos_pos)

lemma func_zero: "func 0 C_0 T logA E_a dH dS = C_0"
  by (simp add: func_relaxation)

lemma func_antimono:
  assumes "0 < C_0" and "0 < k_total T logA E_a dH dS" and "t1 < t2"
  shows "func t2 C_0 T logA E_a dH dS < func t1 C_0 T logA E_a dH dS"
proof -
  have "exp (- (k_total T logA E_a dH dS * t2)) < exp (- (k_total T logA E_a dH dS * t1))"
    using assms by simp
  moreover have "0 < C_0 - C_A_eq C_0 T dH dS"
    using C_A_eq_less [OF assms(1)] by simp
  ultimately show ?thesis
    by (simp add: func_relaxation)
qed

lemma func_bounds:
  assumes "0 < C_0" and "0 < k_total T logA E_a dH dS" and "0 \<le> t"
  shows "C_A_eq C_0 T dH dS < func t C_0 T logA E_a dH dS"
    and "func t C_0 T logA E_a dH dS \<le> C_0"
proof -
  let ?k = "k_total T logA E_a dH dS" and ?x = "C_A_eq C_0 T dH dS"
  have d: "0 < C_0 - ?x"
    using C_A_eq_less [OF assms(1)] by simp
  have "0 < (C_0 - ?x) * exp (- (?k * t))"
    using d by simp
  then show "?x < func t C_0 T logA E_a dH dS"
    by (simp add: func_relaxation)
  have "0 \<le> ?k * t"
    using assms by simp
  then have "exp (- (?k * t)) \<le> 1"
    by simp
  then have "(C_0 - ?x) * exp (- (?k * t)) \<le> (C_0 - ?x) * 1"
    using d by (intro mult_left_mono) simp_all
  then show "func t C_0 T logA E_a dH dS \<le> C_0"
    by (simp add: func_relaxation)
qed

lemma func_limit:
  assumes "0 < k_total T logA E_a dH dS"
  shows "((\<lambda>t. func t C_0 T logA E_a dH dS) \<longlongrightarrow> C_A_eq C_0 T dH dS) at_top"
proof -
  let ?k = "k_total T logA E_a dH dS" and ?x = "C_A_eq C_0 T dH dS"
  have "filterlim (\<lambda>t. ?k * t) at_top at_top"
    using assms by (intro filterlim_tendsto_pos_mult_at_top [OF tendsto_const _ filterlim_ident])
  then have "filterlim (\<lambda>t. - (?k * t)) at_bot at_top"
    by (simp add: filterlim_uminus_at_top)
  then have "((\<lambda>t. exp (- (?k * t))) \<longlongrightarrow> 0) at_top"
    by (rule filterlim_compose [OF exp_at_bot])
  then have "((\<lambda>t. ?x + (C_0 - ?x) * exp (- (?k * t))) \<longlongrightarrow> ?x + (C_0 - ?x) * 0) at_top"
    by (intro tendsto_intros)
  then show ?thesis
    by (simp add: func_relaxation)
qed


text \<open>
  Claim C1, as the code has it. For every \<open>t \<ge> 0\<close>, \<open>C0 > 0\<close>, \<open>T > 0\<close> and parameters
  \<open>(logA, Ea, dH, dS)\<close>, \<open>func\<close> equals
  \<open>C_A_eq + (C0 - C_A_eq) * exp (- k_total * t)\<close> with \<open>R = 8.314\<close>,
  \<open>C_A_eq = C0 / (Kc + 1)\<close>, \<open>kf = 10 ^ logA * exp (- Ea / (R * T))\<close> and
  \<open>k_total = kf * (1 + 1 / Kc)\<close>, where the equilibrium term is
  \<open>Kc = exp ((dH - T * dS) / (R * T))\<close>: the exponent has the sign of the notebook's
  relation \<open>\<Delta>G = R T ln K\<close>, the opposite of the sign in the claim.
\<close>

theorem func_relaxation_form:
  assumes "0 \<le> t" and "0 < C0" and "0 < T"
  shows "func t C0 T logA Ea dH dS =
     (let R = 8.314;
          Kc = exp ((dH - T * dS) / (R * T));
          C_A_eq = C0 / (Kc + 1);
          kf = 10 powr logA * exp (- Ea / (R * T));
          k_total = kf * (1 + 1 / Kc)
      in C_A_eq + (C0 - C_A_eq) * exp (- k_total * t))"
  by (simp add: func_def Let_def algebra_simps)

theorem func_relaxation_form_witness:
  "(0::real) \<le> 10 \<and> (0::real) < 10 \<and> (0::real) < 298.15 \<and>
   func 10 10 298.15 6 45000 (- 10000) (- 50) =
     (let R = 8.314;
          Kc = exp ((- 10000 - 298.15 * (- 50)) / (R * 298.15));
          C_A_eq = 10 / (Kc + 1);
          kf = 10 powr 6 * exp (- 45000 / (R * 298.15));
          k_total = kf * (1 + 1 / Kc)
      in C_A_eq + (10 - C_A_eq) * exp (- k_total * 10))"
  using func_relaxation_form [of 10 10 "298.15" 6 45000 "- 10000" "- 50"] by simp

text \<open>
  Claim C1 as stated fails. At \<open>t = 1\<close>, \<open>C0 = 1\<close>, \<open>T = 1\<close>, \<open>logA = 0\<close>, \<open>Ea = 0\<close>,
  \<open>dH = 8.314\<close>, \<open>dS = 0\<close> the exponent \<open>(dH - T * dS) / (R * T)\<close> is 1. The code
  returns \<open>1 / (e + 1) + e / (e + 1) * exp (- (1 + 1 / e))\<close>, below \<open>2 / (e + 1)\<close>; the
  reference definition gives \<open>e / (e + 1) + 1 / (e + 1) * exp (- (1 + e))\<close>, above
  \<open>e / (e + 1)\<close>.
\<close>

theorem func_differs_from_predict_spec:
  "func 1 1 1 0 0 8.314 0 < predict_spec 1 1 1 0 0 8.314 0"
proof -
  let ?e = "exp (1::real)"
  have e: "2 \<le> ?e"
    using exp_ge_add_one_self [of "1::real"] by simp
  have f: "func 1 1 1 0 0 8.314 0 = 1 / (?e + 1) + (?e / (?e + 1)) * exp (- (1 + 1 / ?e))"
  proof -
    have "1 - 1 / (?e + 1) = ?e / (?e + 1)"
      using e by (simp add: field_simps)
    then show ?thesis
      by (simp add: func_def Let_def)
  qed
  have p: "predict_spec 1 1 1 0 0 8.314 0 = ?e / (?e + 1) + (1 / (?e + 1)) * exp (- (1 + ?e))"
  proof -
    have a: "1 / (exp (- 1) + 1) = ?e / (?e + 1)"
      by (simp add: exp_minus field_simps)
    have b: "1 - ?e / (?e + 1) = 1 / (?e + 1)"
      using e by (simp add: field_simps)
    have c: "1 / exp (- 1) = ?e"
      by (simp add: exp_minus field_simps)
    show ?thesis
      by (simp add: predict_spec_def Let_def a b c)
  qed
  have "exp (- (1 + 1 / ?e)) < exp (- 1)"
    by simp
  also have "\<dots> = 1 / ?e"
    by (simp add: exp_minus field_simps)
  finally have "(?e / (?e + 1)) * exp (- (1 + 1 / ?e)) < (?e / (?e + 1)) * (1 / ?e)"
    using e by (intro mult_strict_left_mono) simp_all
  also have "\<dots> = 1 / (?e + 1)"
    by simp
  finally have "1 / (?e + 1) + (?e / (?e + 1)) * exp (- (1 + 1 / ?e)) < 1 / (?e + 1) + 1 / (?e + 1)"
    by simp
  then have 1: "func 1 1 1 0 0 8.314 0 < 2 / (?e + 1)"
    unfolding f by simp
  have "2 / (?e + 1) \<le> ?e / (?e + 1)"
    using e by (intro divide_right_mono) simp_all
  also have "\<dots> < predict_spec 1 1 1 0 0 8.314 0"
    unfolding p by (simp add: add_pos_pos)
  finally show ?thesis
    using 1 by simp
qed

text \<open>
  Over the reals the relaxation curve behaves as its formula says: for \<open>t \<ge> 0\<close> and
  \<open>C0 > 0\<close> the value of \<open>func\<close> lies between \<open>C_A_eq\<close> and \<open>C0\<close>, is \<open>C0\<close> at \<open>t = 0\<close>,
  does not increase when \<open>t\<close> grows, and tends to \<open>C_A_eq\<close> as \<open>t\<close> tends to infinity,
  where \<open>C_A_eq\<close> and \<open>k_total\<close> are the quantities the code computes.
\<close>

lemma func_relaxation_reals:
  assumes "0 \<le> t" and "0 < C_0" and "0 < T" and "0 < k_total T logA E_a dH dS"
  shows "C_A_eq C_0 T dH dS \<le> func t C_0 T logA E_a dH dS
       \<and> func t C_0 T logA E_a dH dS \<le> C_0
       \<and> func 0 C_0 T logA E_a dH dS = C_0
       \<and> (\<forall>t1 t2. 0 \<le> t1 \<and> t1 \<le> t2 \<longrightarrow>
            func t2 C_0 T logA E_a dH dS \<le> func t1 C_0 T logA E_a dH dS)
       \<and> ((\<lambda>t. func t C_0 T logA E_a dH dS) \<longlongrightarrow> C_A_eq C_0 T dH dS) at_top"
proof (intro conjI allI impI)
  show "C_A_eq C_0 T dH dS \<le> func t C_0 T logA E_a dH dS"
    using func_bounds(1) [OF assms(2) assms(4) assms(1)] by simp
  show "func t C_0 T logA E_a dH dS \<le> C_0"
    by (rule func_bounds(2) [OF assms(2) assms(4) assms(1)])
  show "func 0 C_0 T logA E_a dH dS = C_0"
    by (rule func_zero)
  show "((\<lambda>t. func t C_0 T logA E_a dH dS) \<longlongrightarrow> C_A_eq C_0 T dH dS) at_top"
    by (rule func_limit [OF assms(4)])
next
  fix t1 t2 :: real
  assume "0 \<le> t1 \<and> t1 \<le> t2"
  then have "t1 < t2 \<or> t1 = t2"
    by auto
  then show "func t2 C_0 T logA E_a dH dS \<le> func t1 C_0 T logA E_a dH dS"
    using func_antimono [OF assms(2) assms(4), of t1 t2] by auto
qed

section \<open>Concentration model in double precision\<close>

text \<open>
  The statements above are about real numbers. The notebook computes with IEEE
  double-precision numbers (\<open>numpy.float64\<close>: the parameters come out of the solver's
  array, and \<open>exp\<close> is numpy's), where a result too large becomes an infinity, one too
  small becomes zero, and \<open>1 / 0\<close> and \<open>0 * inf\<close> give an infinity and NaN with a warning
  and no exception. Whether \<open>func\<close> returns a finite number is a question about these
  values, so \<open>func\<close> is modelled a second time, operation by operation, on them.
\<close>

subsection \<open>Doubles and their arithmetic\<close>

datatype double = Finite real | PlusInf | MinusInf | NotANumber

text \<open>
  A finite double is given by the real number it stands for; the sign of zero is not
  kept (the divisors in \<open>func\<close> are \<open>R * T\<close>, which is not zero for a temperature above
  zero, a sum with 1 and an exponential, which is never \<open>-0\<close>). \<open>huge\<close> is \<open>2 ^ 1024\<close>,
  the first power of two that is not a double: a rounded result of this magnitude is an
  infinity. \<open>tiny\<close> is \<open>2 ^ - 1075\<close>, half the smallest positive double: a result of at
  most this magnitude rounds to zero.
\<close>

definition huge :: real where
  "huge = 2 ^ 1024"

definition tiny :: real where
  "tiny = 1 / 2 ^ 1075"

text \<open>
  The rounding of a real result to a double (before the bound \<open>huge\<close>, which \<open>to_double\<close>
  applies afterwards) is a parameter \<open>rnd\<close> of every operation. What the general
  statements assume of it is what round-to-nearest has: it is monotone, leaves values
  it has produced unchanged, commutes with negation, leaves the powers of two unchanged
  and takes \<open>tiny\<close> to zero. Nothing is assumed about how close \<open>rnd r\<close> is to \<open>r\<close>, so
  these statements also hold for a library whose \<open>exp\<close> and power are less accurate
  than correctly rounded, as long as they are monotone.
\<close>

definition rounding :: "(real \<Rightarrow> real) \<Rightarrow> bool" where
  "rounding rnd \<longleftrightarrow>
     mono rnd \<and> (\<forall>r. rnd (rnd r) = rnd r) \<and> (\<forall>r. rnd (- r) = - rnd r)
     \<and> (\<forall>n. rnd (2 ^ n) = 2 ^ n) \<and> rnd tiny = 0"

text \<open>
  Rounding to the nearest whole number, a tie going to the even neighbour.
\<close>

definition round_half_even :: "real \<Rightarrow> real" where
  "round_half_even x =
     (let f = \<lfloor>x\<rfloor>; d = x - of_int f
      in if d < 1 / 2 then of_int f
         else if 1 / 2 < d then of_int (f + 1)
         else if even f then of_int f else of_int (f + 1))"

text \<open>
  Round-to-nearest of IEEE 754 for the 64-bit format. A double is a whole multiple of
  its unit in the last place, \<open>2 ^ (e - 52)\<close>, where \<open>e\<close> is the exponent of the number
  and at least \<open>- 1022\<close>: below \<open>2 ^ - 1022\<close> the doubles are equally spaced. The exponent
  is not bounded above here; \<open>to_double\<close> does that.
\<close>

definition exponent_of :: "real \<Rightarrow> int" where
  "exponent_of r = max \<lfloor>log 2 \<bar>r\<bar>\<rfloor> (- 1022)"

definition ulp :: "real \<Rightarrow> real" where
  "ulp r = 2 powr of_int (exponent_of r - 52)"

definition round_nearest_even :: "real \<Rightarrow> real" where
  "round_nearest_even r = round_half_even (r / ulp r) * ulp r"

definition to_double :: "(real \<Rightarrow> real) \<Rightarrow> real \<Rightarrow> double" where
  "to_double rnd r =
     (if huge \<le> rnd r then PlusInf
      else if rnd r \<le> - huge then MinusInf
      else Finite (rnd r))"

text \<open>
  The arithmetic of numpy on doubles. \<open>inf_of_sign\<close> is the product of an infinity and a
  finite factor, and the quotient of a finite number by zero: NaN when the finite
  operand is zero.
\<close>

fun neg_d :: "double \<Rightarrow> double" where
  "neg_d (Finite a) = Finite (- a)"
| "neg_d PlusInf = MinusInf"
| "neg_d MinusInf = PlusInf"
| "neg_d NotANumber = NotANumber"

fun add_d :: "(real \<Rightarrow> real) \<Rightarrow> double \<Rightarrow> double \<Rightarrow> double" where
  "add_d rnd (Finite a) (Finite b) = to_double rnd (a + b)"
| "add_d rnd NotANumber y = NotANumber"
| "add_d rnd x NotANumber = NotANumber"
| "add_d rnd PlusInf MinusInf = NotANumber"
| "add_d rnd MinusInf PlusInf = NotANumber"
| "add_d rnd PlusInf y = PlusInf"
| "add_d rnd x PlusInf = PlusInf"
| "add_d rnd MinusInf y = MinusInf"
| "add_d rnd x MinusInf = MinusInf"

definition sub_d :: "(real \<Rightarrow> real) \<Rightarrow> double \<Rightarrow> double \<Rightarrow> double" where
  "sub_d rnd x y = add_d rnd x (neg_d y)"

definition inf_of_sign :: "real \<Rightarrow> double" where
  "inf_of_sign s = (if s = 0 then NotANumber else if 0 < s then PlusInf else MinusInf)"

fun mul_d :: "(real \<Rightarrow> real) \<Rightarrow> double \<Rightarrow> double \<Rightarrow> double" where
  "mul_d rnd (Finite a) (Finite b) = to_double rnd (a * b)"
| "mul_d rnd NotANumber y = NotANumber"
| "mul_d rnd x NotANumber = NotANumber"
| "mul_d rnd (Finite a) PlusInf = inf_of_sign a"
| "mul_d rnd (Finite a) MinusInf = inf_of_sign (- a)"
| "mul_d rnd PlusInf (Finite b) = inf_of_sign b"
| "mul_d rnd MinusInf (Finite b) = inf_of_sign (- b)"
| "mul_d rnd PlusInf PlusInf = PlusInf"
| "mul_d rnd PlusInf MinusInf = MinusInf"
| "mul_d rnd MinusInf PlusInf = MinusInf"
| "mul_d rnd MinusInf MinusInf = PlusInf"

fun div_d :: "(real \<Rightarrow> real) \<Rightarrow> double \<Rightarrow> double \<Rightarrow> double" where
  "div_d rnd (Finite a) (Finite b) = (if b = 0 then inf_of_sign a else to_double rnd (a / b))"
| "div_d rnd NotANumber y = NotANumber"
| "div_d rnd x NotANumber = NotANumber"
| "div_d rnd (Finite a) y = Finite 0"
| "div_d rnd PlusInf (Finite b) = (if 0 \<le> b then PlusInf else MinusInf)"
| "div_d rnd MinusInf (Finite b) = (if 0 \<le> b then MinusInf else PlusInf)"
| "div_d rnd x y = NotANumber"

fun exp_d :: "(real \<Rightarrow> real) \<Rightarrow> double \<Rightarrow> double" where
  "exp_d rnd (Finite a) = to_double rnd (exp a)"
| "exp_d rnd PlusInf = PlusInf"
| "exp_d rnd MinusInf = Finite 0"
| "exp_d rnd NotANumber = NotANumber"

text \<open>\<open>10 ** x\<close>\<close>

fun pow10_d :: "(real \<Rightarrow> real) \<Rightarrow> double \<Rightarrow> double" where
  "pow10_d rnd (Finite a) = to_double rnd (10 powr a)"
| "pow10_d rnd PlusInf = PlusInf"
| "pow10_d rnd MinusInf = Finite 0"
| "pow10_d rnd NotANumber = NotANumber"

text \<open>
  \<open>func\<close> again, with every operation of the source in its place and in its order; the
  literal \<open>8.314\<close> is the double nearest to it.
\<close>

definition func_double ::
  "(real \<Rightarrow> real) \<Rightarrow> double \<Rightarrow> double \<Rightarrow> double \<Rightarrow> double \<Rightarrow> double \<Rightarrow> double \<Rightarrow> double \<Rightarrow> double" where
  "func_double rnd t C_0 T logA E_a dH dS =
     (let R = to_double rnd 8.314;
          C_1 = sub_d rnd C_0
                  (div_d rnd C_0
                     (add_d rnd (exp_d rnd (div_d rnd (sub_d rnd dH (mul_d rnd T dS)) (mul_d rnd R T)))
                        (Finite 1)));
          x = div_d rnd C_0
                (add_d rnd (exp_d rnd (div_d rnd (sub_d rnd dH (mul_d rnd T dS)) (mul_d rnd R T)))
                   (Finite 1));
          exponential =
            exp_d rnd
              (mul_d rnd
                 (mul_d rnd
                    (mul_d rnd (mul_d rnd t (pow10_d rnd logA))
                       (exp_d rnd (div_d rnd (neg_d E_a) (mul_d rnd R T))))
                    (Finite (- 1)))
                 (add_d rnd (Finite 1)
                    (div_d rnd (Finite 1)
                       (exp_d rnd (div_d rnd (sub_d rnd dH (mul_d rnd T dS)) (mul_d rnd R T))))))
      in add_d rnd x (mul_d rnd C_1 exponential))"

text \<open>
  Names for the parts of \<open>func_double\<close>: the equilibrium term
  \<open>exp((dH - T * dS) / (R * T))\<close>, the local \<open>x\<close> (the equilibrium concentration as the
  code computes it), the Arrhenius term \<open>exp(- E_a / (R * T))\<close>, the factor
  \<open>1 + 1 / exp(...)\<close>, and the exponential as a function of the product
  \<open>t * 10 ** logA\<close>.
\<close>

definition K_double :: "(real \<Rightarrow> real) \<Rightarrow> double \<Rightarrow> double \<Rightarrow> double \<Rightarrow> double" where
  "K_double rnd T dH dS =
     exp_d rnd (div_d rnd (sub_d rnd dH (mul_d rnd T dS)) (mul_d rnd (to_double rnd 8.314) T))"

definition x_double :: "(real \<Rightarrow> real) \<Rightarrow> double \<Rightarrow> double \<Rightarrow> double \<Rightarrow> double \<Rightarrow> double" where
  "x_double rnd C_0 T dH dS = div_d rnd C_0 (add_d rnd (K_double rnd T dH dS) (Finite 1))"

definition arrhenius_double :: "(real \<Rightarrow> real) \<Rightarrow> double \<Rightarrow> double \<Rightarrow> double" where
  "arrhenius_double rnd T E_a =
     exp_d rnd (div_d rnd (neg_d E_a) (mul_d rnd (to_double rnd 8.314) T))"

definition rate_factor_double :: "(real \<Rightarrow> real) \<Rightarrow> double \<Rightarrow> double \<Rightarrow> double \<Rightarrow> double" where
  "rate_factor_double rnd T dH dS =
     add_d rnd (Finite 1) (div_d rnd (Finite 1) (K_double rnd T dH dS))"

definition exponential_double ::
  "(real \<Rightarrow> real) \<Rightarrow> double \<Rightarrow> double \<Rightarrow> double \<Rightarrow> double" where
  "exponential_double rnd p B M =
     exp_d rnd (mul_d rnd (mul_d rnd (mul_d rnd p B) (Finite (- 1))) M)"

text \<open>
  The equilibrium concentration as the specification defines it, over the reals, with
  \<open>Kc = exp (- (dH - T * dS) / (R * T))\<close>.
\<close>

definition C_A_eq_spec :: "real \<Rightarrow> real \<Rightarrow> real \<Rightarrow> real \<Rightarrow> real" where
  "C_A_eq_spec C0 T dH dS = C0 / (exp (- (dH - T * dS) / (8.314 * T)) + 1)"

subsection \<open>Order, signs and range\<close>

text \<open>
  The order of the doubles, and the values that are zero or positive, or zero or
  negative; NaN is in none of them.
\<close>

fun le_d :: "double \<Rightarrow> double \<Rightarrow> bool" where
  "le_d (Finite a) (Finite b) = (a \<le> b)"
| "le_d NotANumber y = False"
| "le_d x NotANumber = False"
| "le_d MinusInf y = True"
| "le_d x PlusInf = True"
| "le_d x y = False"

fun nonneg_d :: "double \<Rightarrow> bool" where
  "nonneg_d (Finite a) = (0 \<le> a)"
| "nonneg_d PlusInf = True"
| "nonneg_d x = False"

fun nonpos_d :: "double \<Rightarrow> bool" where
  "nonpos_d (Finite a) = (a \<le> 0)"
| "nonpos_d MinusInf = True"
| "nonpos_d x = False"

lemma func_double_parts:
  "func_double rnd t C_0 T logA E_a dH dS =
     add_d rnd (x_double rnd C_0 T dH dS)
       (mul_d rnd (sub_d rnd C_0 (x_double rnd C_0 T dH dS))
          (exponential_double rnd (mul_d rnd t (pow10_d rnd logA))
             (arrhenius_double rnd T E_a)
             (rate_factor_double rnd T dH dS)))"
  by (simp add: func_double_def x_double_def K_double_def arrhenius_double_def
      exponential_double_def rate_factor_double_def Let_def)

lemma huge_pos: "0 < huge" "1 < huge"
  by (simp_all add: huge_def)

lemma tiny_pos: "0 < tiny"
  by (simp add: tiny_def)

lemma rounding_mono: "rounding rnd \<Longrightarrow> r \<le> s \<Longrightarrow> rnd r \<le> rnd s"
  by (simp add: rounding_def mono_def)

lemma rounding_idem: "rounding rnd \<Longrightarrow> rnd (rnd r) = rnd r"
  by (simp add: rounding_def)

lemma rounding_minus: "rounding rnd \<Longrightarrow> rnd (- r) = - rnd r"
  by (simp add: rounding_def)

lemma rounding_power2: "rounding rnd \<Longrightarrow> rnd (2 ^ n) = 2 ^ n"
  by (simp add: rounding_def)

lemma rounding_tiny: "rounding rnd \<Longrightarrow> rnd tiny = 0"
  by (simp add: rounding_def)

lemma rounding_0: "rounding rnd \<Longrightarrow> rnd 0 = 0"
  using rounding_minus [of rnd 0] by simp

lemma rounding_1: "rounding rnd \<Longrightarrow> rnd 1 = 1"
  using rounding_power2 [of rnd 0] by simp

lemma rounding_nonneg: "rounding rnd \<Longrightarrow> 0 \<le> r \<Longrightarrow> 0 \<le> rnd r"
  using rounding_mono [of rnd 0 r] by (simp add: rounding_0)

lemma rounding_nonpos: "rounding rnd \<Longrightarrow> r \<le> 0 \<Longrightarrow> rnd r \<le> 0"
  using rounding_mono [of rnd r 0] by (simp add: rounding_0)

lemma rounding_le: "rounding rnd \<Longrightarrow> r \<le> c \<Longrightarrow> rnd c = c \<Longrightarrow> rnd r \<le> c"
  using rounding_mono [of rnd r c] by simp

lemma rounding_ge: "rounding rnd \<Longrightarrow> c \<le> r \<Longrightarrow> rnd c = c \<Longrightarrow> c \<le> rnd r"
  using rounding_mono [of rnd c r] by simp

lemma to_double_Finite:
  "- huge < rnd r \<Longrightarrow> rnd r < huge \<Longrightarrow> to_double rnd r = Finite (rnd r)"
  by (simp add: to_double_def)

lemma to_double_between:
  assumes "rounding rnd" and "0 \<le> r" and "r \<le> c" and "rnd c = c" and "c < huge"
  shows "to_double rnd r = Finite (rnd r)" and "0 \<le> rnd r" and "rnd r \<le> c"
proof -
  show 1: "0 \<le> rnd r"
    by (rule rounding_nonneg [OF assms(1,2)])
  show 2: "rnd r \<le> c"
    by (rule rounding_le [OF assms(1,3,4)])
  show "to_double rnd r = Finite (rnd r)"
    using 1 2 assms(5) huge_pos by (intro to_double_Finite) simp_all
qed

lemma le_d_to_double:
  assumes "rounding rnd" and "r \<le> s"
  shows "le_d (to_double rnd r) (to_double rnd s)"
  using rounding_mono [OF assms] huge_pos by (simp add: to_double_def)

lemma le_d_refl: "x \<noteq> NotANumber \<Longrightarrow> le_d x x"
  by (cases x) simp_all

lemma le_d_trans: "le_d x y \<Longrightarrow> le_d y z \<Longrightarrow> le_d x z"
  by (cases x; cases y; cases z) simp_all

lemma nonneg_to_double: "rounding rnd \<Longrightarrow> 0 \<le> r \<Longrightarrow> nonneg_d (to_double rnd r)"
  using rounding_nonneg [of rnd r] huge_pos by (simp add: to_double_def)

lemma nonpos_to_double: "rounding rnd \<Longrightarrow> r \<le> 0 \<Longrightarrow> nonpos_d (to_double rnd r)"
  using rounding_nonpos [of rnd r] huge_pos by (simp add: to_double_def)

lemma mul_pos_nonneg:
  assumes "rounding rnd" and "nonneg_d x" and "0 < b"
  shows "nonneg_d (mul_d rnd x (Finite b))"
  using assms by (cases x) (simp_all add: nonneg_to_double inf_of_sign_def)

lemma mul_pos_mono:
  assumes "rounding rnd" and "le_d x y" and "nonneg_d x" and "nonneg_d y" and "0 < b"
  shows "le_d (mul_d rnd x (Finite b)) (mul_d rnd y (Finite b))"
proof (cases x)
  case (Finite u)
  show ?thesis
  proof (cases y)
    case (Finite v)
    with \<open>x = Finite u\<close> assms show ?thesis
      by (simp add: le_d_to_double)
  next
    case PlusInf
    have "nonneg_d (to_double rnd (u * b))"
      using assms \<open>x = Finite u\<close> by (intro nonneg_to_double) simp_all
    then show ?thesis
      using PlusInf \<open>x = Finite u\<close> assms(5)
      by (cases "to_double rnd (u * b)") (simp_all add: inf_of_sign_def)
  qed (use assms in simp_all)
next
  case PlusInf
  with assms show ?thesis
    by (cases y) (simp_all add: inf_of_sign_def)
qed (use assms in simp_all)

lemma mul_minus_one_nonpos:
  assumes "rounding rnd" and "nonneg_d x"
  shows "nonpos_d (mul_d rnd x (Finite (- 1)))"
  using assms by (cases x) (simp_all add: nonpos_to_double inf_of_sign_def)

lemma mul_minus_one_antimono:
  assumes "rounding rnd" and "le_d x y" and "nonneg_d x" and "nonneg_d y"
  shows "le_d (mul_d rnd y (Finite (- 1))) (mul_d rnd x (Finite (- 1)))"
proof (cases y)
  case (Finite v)
  with assms show ?thesis
    by (cases x) (simp_all add: le_d_to_double)
next
  case PlusInf
  show ?thesis
  proof (cases x)
    case (Finite u)
    have "nonpos_d (to_double rnd (- u))"
      using assms \<open>x = Finite u\<close> by (intro nonpos_to_double) simp_all
    then show ?thesis
      using PlusInf Finite
      by (cases "to_double rnd (- u)") (simp_all add: inf_of_sign_def)
  qed (use assms PlusInf in \<open>simp_all add: inf_of_sign_def\<close>)
qed (use assms in simp_all)

lemma mul_pos_nonpos:
  assumes "rounding rnd" and "nonpos_d x" and "0 < m"
  shows "nonpos_d (mul_d rnd x (Finite m))"
  using assms
  by (cases x) (simp_all add: nonpos_to_double inf_of_sign_def mult_nonpos_nonneg)

lemma mul_pos_mono_nonpos:
  assumes "rounding rnd" and "le_d x y" and "nonpos_d x" and "nonpos_d y" and "0 < m"
  shows "le_d (mul_d rnd x (Finite m)) (mul_d rnd y (Finite m))"
proof (cases y)
  case (Finite v)
  show ?thesis
  proof (cases x)
    case (Finite u)
    with \<open>y = Finite v\<close> assms show ?thesis
      by (simp add: le_d_to_double)
  next
    case MinusInf
    have "nonpos_d (to_double rnd (v * m))"
      using assms \<open>y = Finite v\<close> by (intro nonpos_to_double) (simp_all add: mult_nonpos_nonneg)
    then show ?thesis
      using MinusInf \<open>y = Finite v\<close> assms(5)
      by (cases "to_double rnd (v * m)") (simp_all add: inf_of_sign_def)
  qed (use assms in simp_all)
next
  case MinusInf
  with assms show ?thesis
    by (cases x) (simp_all add: inf_of_sign_def)
qed (use assms in simp_all)

lemma exp_d_nonpos:
  assumes "rounding rnd" and "nonpos_d x"
  obtains e where "exp_d rnd x = Finite e" and "0 \<le> e" and "e \<le> 1"
proof (cases x)
  case (Finite u)
  then have "u \<le> 0"
    using assms by simp
  then have "0 \<le> exp u" "exp u \<le> 1"
    by simp_all
  from to_double_between [OF assms(1) this rounding_1 [OF assms(1)] huge_pos(2)]
  show ?thesis
    using Finite that by simp
next
  case MinusInf
  then show ?thesis
    using that by simp
qed (use assms in simp_all)

lemma exp_d_mono:
  assumes "rounding rnd" and "le_d x y"
  shows "le_d (exp_d rnd x) (exp_d rnd y)"
proof (cases x)
  case (Finite u)
  show ?thesis
  proof (cases y)
    case (Finite v)
    with \<open>x = Finite u\<close> assms show ?thesis
      by (simp add: le_d_to_double)
  next
    case PlusInf
    have "nonneg_d (to_double rnd (exp u))"
      using assms by (intro nonneg_to_double) simp_all
    then show ?thesis
      using PlusInf \<open>x = Finite u\<close> by (cases "to_double rnd (exp u)") simp_all
  qed (use assms \<open>x = Finite u\<close> in simp_all)
next
  case MinusInf
  show ?thesis
  proof (cases y)
    case (Finite v)
    have "nonneg_d (to_double rnd (exp v))"
      using assms by (intro nonneg_to_double) simp_all
    then show ?thesis
      using MinusInf Finite by (cases "to_double rnd (exp v)") simp_all
  qed (use assms MinusInf in simp_all)
next
  case PlusInf
  with assms show ?thesis
    by (cases y) simp_all
qed (use assms in simp_all)

lemma exponential_double_antimono:
  assumes "rounding rnd" and "le_d p q" and "nonneg_d p" and "nonneg_d q" and "0 < b" and "0 < m"
  shows "le_d (exponential_double rnd q (Finite b) (Finite m))
              (exponential_double rnd p (Finite b) (Finite m))"
  unfolding exponential_double_def
  by (intro exp_d_mono mul_pos_mono_nonpos mul_minus_one_antimono mul_pos_mono
      mul_minus_one_nonpos mul_pos_nonneg assms)

lemma exponential_double_range:
  assumes "rounding rnd" and "nonneg_d p" and "0 < b" and "0 < m"
  obtains e where "exponential_double rnd p (Finite b) (Finite m) = Finite e" and "0 \<le> e" and "e \<le> 1"
proof -
  have "nonpos_d (mul_d rnd (mul_d rnd (mul_d rnd p (Finite b)) (Finite (- 1))) (Finite m))"
    by (intro mul_pos_nonpos mul_minus_one_nonpos mul_pos_nonneg assms)
  from exp_d_nonpos [OF assms(1) this] show ?thesis
    using that unfolding exponential_double_def by blast
qed


lemma to_double_0: "rounding rnd \<Longrightarrow> to_double rnd 0 = Finite 0"
  using huge_pos by (simp add: to_double_def rounding_0)

lemma to_double_1: "rounding rnd \<Longrightarrow> to_double rnd 1 = Finite 1"
  using huge_pos by (simp add: to_double_def rounding_1)

lemma exponential_double_0:
  "rounding rnd \<Longrightarrow> exponential_double rnd (Finite 0) (Finite b) (Finite m) = Finite 1"
  by (simp add: exponential_double_def to_double_0 to_double_1)

lemma exp_le_tiny:
  fixes u :: real
  assumes "u \<le> - 2048"
  shows "exp u \<le> tiny"
proof -
  define E where "E = exp (real (2048::nat))"
  have "(2::real) ^ 1075 \<le> 2 ^ (2048::nat)"
    by (intro power_increasing) simp_all
  also have "\<dots> \<le> exp 1 ^ (2048::nat)"
    using exp_ge_add_one_self [of "1::real"] by (intro power_mono) simp_all
  also have "\<dots> = exp (real (2048::nat) * 1)"
    by (simp only: exp_of_nat_mult)
  also have "\<dots> = E"
    by (simp only: E_def mult_1_right)
  finally have 1: "2 ^ 1075 \<le> E" .
  have "0 < E"
    unfolding E_def by (rule exp_gt_zero)
  have "1 / E \<le> 1 / 2 ^ 1075"
    using 1 by (intro divide_left_mono) simp_all
  moreover have "exp (- real (2048::nat)) = 1 / E"
    unfolding E_def by (simp only: exp_minus inverse_eq_divide)
  ultimately have "exp (- 2048) \<le> tiny"
    by (simp only: tiny_def of_nat_numeral)
  moreover have "exp u \<le> exp (- 2048)"
    using assms by (simp only: exp_le_cancel_iff)
  ultimately show ?thesis
    by (rule order_trans [rotated])
qed

lemma le_d_Finite_to_double:
  assumes "rounding rnd" and "c \<le> r" and "rnd c = c" and "0 \<le> c"
  shows "le_d (Finite c) (to_double rnd r)"
  using rounding_ge [OF assms(1,2,3)] assms(4) huge_pos by (simp add: to_double_def)

lemma le_d_to_double_Finite:
  assumes "rounding rnd" and "r \<le> - c" and "rnd c = c" and "0 \<le> c"
  shows "le_d (to_double rnd r) (Finite (- c))"
proof -
  have "rnd r \<le> rnd (- c)"
    by (rule rounding_mono [OF assms(1,2)])
  then have "rnd r \<le> - c"
    by (simp add: rounding_minus [OF assms(1)] assms(3))
  then show ?thesis
    using assms(4) huge_pos by (simp add: to_double_def)
qed

lemma mul_pos_ge:
  assumes "rounding rnd" and "le_d (Finite c) x" and "0 < b" and "d \<le> c * b"
    and "rnd d = d" and "0 \<le> d"
  shows "le_d (Finite d) (mul_d rnd x (Finite b))"
proof (cases x)
  case (Finite u)
  then have "c \<le> u"
    using assms(2) by simp
  then have "c * b \<le> u * b"
    using assms(3) by simp
  then have "d \<le> u * b"
    using assms(4) by simp
  from le_d_Finite_to_double [OF assms(1) this assms(5,6)] show ?thesis
    using Finite by simp
next
  case PlusInf
  then show ?thesis
    using assms(3) by (simp add: inf_of_sign_def)
qed (use assms in simp_all)

lemma mul_minus_one_le:
  assumes "rounding rnd" and "le_d (Finite d) x" and "rnd d = d" and "0 \<le> d"
  shows "le_d (mul_d rnd x (Finite (- 1))) (Finite (- d))"
proof (cases x)
  case (Finite u)
  then have "u * - 1 \<le> - d"
    using assms(2) by simp
  from le_d_to_double_Finite [OF assms(1) this assms(3,4)] show ?thesis
    using Finite by simp
next
  case PlusInf
  then show ?thesis
    by (simp add: inf_of_sign_def)
qed (use assms in simp_all)

lemma mul_ge_one_le:
  assumes "rounding rnd" and "le_d x (Finite (- d))" and "rnd d = d" and "0 \<le> d" and "1 \<le> m"
  shows "le_d (mul_d rnd x (Finite m)) (Finite (- d))"
proof (cases x)
  case (Finite u)
  then have u: "u \<le> - d"
    using assms(2) by simp
  then have "u \<le> 0"
    using assms(4) by simp
  then have "u * m \<le> u * 1"
    using assms(5) by (intro mult_left_mono_neg) simp_all
  then have "u * m \<le> - d"
    using u by simp
  from le_d_to_double_Finite [OF assms(1) this assms(3,4)] show ?thesis
    using Finite by simp
next
  case MinusInf
  then show ?thesis
    using assms(5) by (simp add: inf_of_sign_def)
qed (use assms in simp_all)

lemma exp_d_underflow:
  assumes "rounding rnd" and "le_d x (Finite (- 2048))"
  shows "exp_d rnd x = Finite 0"
proof (cases x)
  case (Finite u)
  then have "u \<le> - 2048"
    using assms(2) by (simp only: le_d.simps)
  then have "exp u \<le> tiny"
    by (rule exp_le_tiny)
  then have "rnd (exp u) \<le> rnd tiny"
    by (rule rounding_mono [OF assms(1)])
  then have "rnd (exp u) \<le> 0"
    by (simp only: rounding_tiny [OF assms(1)])
  moreover have "0 \<le> rnd (exp u)"
    by (rule rounding_nonneg [OF assms(1)]) (rule exp_ge_zero)
  ultimately have "rnd (exp u) = 0"
    by (rule order_antisym)
  then have "to_double rnd (exp u) = Finite 0"
    using huge_pos by (simp add: to_double_def)
  then show ?thesis
    unfolding Finite by (simp only: exp_d.simps)
next
  case PlusInf
  then show ?thesis
    using assms(2) by (simp only: le_d.simps)
next
  case MinusInf
  then show ?thesis
    by (simp only: exp_d.simps)
next
  case NotANumber
  then show ?thesis
    using assms(2) by (simp only: le_d.simps)
qed

lemma exponential_double_underflow:
  assumes "rounding rnd" and "le_d (Finite (2 ^ N)) p" and "0 < b" and "2048 \<le> 2 ^ N * b"
    and "1 \<le> m"
  shows "exponential_double rnd p (Finite b) (Finite m) = Finite 0"
proof -
  have f: "rnd 2048 = 2048"
    using rounding_power2 [OF assms(1), of 11] by simp
  have z: "(0::real) \<le> 2048"
    by simp
  have 1: "le_d (Finite 2048) (mul_d rnd p (Finite b))"
    by (rule mul_pos_ge [OF assms(1,2,3,4) f z])
  have 2: "le_d (mul_d rnd (mul_d rnd p (Finite b)) (Finite (- 1))) (Finite (- 2048))"
    by (rule mul_minus_one_le [OF assms(1) 1 f z])
  have 3: "le_d (mul_d rnd (mul_d rnd (mul_d rnd p (Finite b)) (Finite (- 1))) (Finite m))
      (Finite (- 2048))"
    by (rule mul_ge_one_le [OF assms(1) 2 f z assms(5)])
  show ?thesis
    unfolding exponential_double_def by (rule exp_d_underflow [OF assms(1) 3])
qed

lemma exp_d_cases:
  assumes "rounding rnd"
  shows "exp_d rnd z = PlusInf \<or> exp_d rnd z = NotANumber \<or> (\<exists>k\<ge>0. exp_d rnd z = Finite k)"
proof (cases z)
  case (Finite u)
  have "nonneg_d (to_double rnd (exp u))"
    using assms by (intro nonneg_to_double) simp_all
  then show ?thesis
    using Finite by (cases "to_double rnd (exp u)") simp_all
qed simp_all

lemma pow10_d_nonneg:
  assumes "rounding rnd" and "pow10_d rnd z = Finite a"
  shows "0 \<le> a"
proof (cases z)
  case (Finite u)
  have "nonneg_d (to_double rnd (10 powr u))"
    using assms by (intro nonneg_to_double) simp_all
  then show ?thesis
    using Finite assms(2) by simp
qed (use assms in simp_all)

lemma rate_factor_double_cases:
  assumes "rounding rnd" and "rate_factor_double rnd T dH dS = Finite m"
  shows "1 \<le> m"
    and "K_double rnd T dH dS = PlusInf \<or> (\<exists>k>0. K_double rnd T dH dS = Finite k)"
proof -
  define K where "K = K_double rnd T dH dS"
  have m: "add_d rnd (Finite 1) (div_d rnd (Finite 1) K) = Finite m"
    using assms(2) by (simp add: rate_factor_double_def K_def)
  have "K = PlusInf \<or> K = NotANumber \<or> (\<exists>k\<ge>0. K = Finite k)"
    unfolding K_def K_double_def by (rule exp_d_cases [OF assms(1)])
  then consider "K = PlusInf" | "K = NotANumber" | "K = Finite 0" | k where "0 < k" "K = Finite k"
    by (metis less_eq_real_def)
  then have "1 \<le> m \<and> (K = PlusInf \<or> (\<exists>k>0. K = Finite k))"
  proof cases
    case 1
    then show ?thesis
      using m by (simp add: to_double_1 [OF assms(1)])
  next
    case 2
    then show ?thesis
      using m by simp
  next
    case 3
    then show ?thesis
      using m by (simp add: inf_of_sign_def)
  next
    case 4
    have n: "nonneg_d (to_double rnd (1 / k))"
      using 4(1) by (intro nonneg_to_double assms) simp
    have "1 \<le> m"
    proof (cases "to_double rnd (1 / k)")
      case (Finite r)
      then have "0 \<le> r"
        using n by simp
      then have "le_d (Finite 1) (to_double rnd (1 + r))"
        by (intro le_d_Finite_to_double assms rounding_1) simp_all
      then show ?thesis
        using m 4 Finite by simp
    qed (use m 4 n in simp_all)
    then show ?thesis
      using 4 by blast
  qed
  then show "1 \<le> m" and "K_double rnd T dH dS = PlusInf \<or> (\<exists>k>0. K_double rnd T dH dS = Finite k)"
    unfolding K_def by simp_all
qed

lemma x_double_range:
  assumes "rounding rnd" and "0 < c" and "rnd c = c" and "c < huge"
    and "K_double rnd T dH dS = PlusInf \<or> (\<exists>k>0. K_double rnd T dH dS = Finite k)"
  obtains x where "x_double rnd (Finite c) T dH dS = Finite x" and "0 \<le> x" and "x \<le> c"
    and "rnd x = x"
proof -
  from assms(5) consider "K_double rnd T dH dS = PlusInf"
    | k where "0 < k" "K_double rnd T dH dS = Finite k"
    by blast
  then show ?thesis
  proof cases
    case 1
    then have "x_double rnd (Finite c) T dH dS = Finite 0"
      by (simp add: x_double_def)
    then show ?thesis
      using that [of 0] assms(2) rounding_0 [OF assms(1)] by simp
  next
    case 2
    have l: "le_d (Finite 1) (to_double rnd (k + 1))"
      using 2(1) by (intro le_d_Finite_to_double assms rounding_1) simp_all
    show ?thesis
    proof (cases "to_double rnd (k + 1)")
      case (Finite q)
      then have q: "1 \<le> q"
        using l by simp
      then have "0 \<le> c / q" "c / q \<le> c"
        using assms(2) by (simp_all add: field_simps)
      from to_double_between [OF assms(1) this assms(3,4)]
      have "x_double rnd (Finite c) T dH dS = Finite (rnd (c / q))"
        "0 \<le> rnd (c / q)" "rnd (c / q) \<le> c"
        using q 2 Finite by (simp_all add: x_double_def)
      then show ?thesis
        using that [of "rnd (c / q)"] rounding_idem [OF assms(1)] by simp
    next
      case PlusInf
      then have "x_double rnd (Finite c) T dH dS = Finite 0"
        using 2 by (simp add: x_double_def)
      then show ?thesis
        using that [of 0] assms(2) rounding_0 [OF assms(1)] by simp
    qed (use l in simp_all)
  qed
qed


lemma func_double_value:
  assumes "rounding rnd" and "0 < c" and "rnd c = c" and "rnd (2 * c) < huge"
    and "0 \<le> x" and "x \<le> c" and "rnd x = x" and "0 \<le> e" and "e \<le> 1"
  shows "add_d rnd (Finite x) (mul_d rnd (sub_d rnd (Finite c) (Finite x)) (Finite e)) =
           Finite (rnd (x + rnd (rnd (c - x) * e)))"
    and "x \<le> rnd (x + rnd (rnd (c - x) * e))"
    and "rnd (x + rnd (rnd (c - x) * e)) \<le> rnd (x + rnd (c - x))"
proof -
  note r = assms(1)
  define c1 where "c1 = rnd (c - x)"
  define q where "q = rnd (c1 * e)"
  have "rnd c \<le> rnd (2 * c)"
    using assms(2) by (intro rounding_mono [OF r]) simp
  then have ch: "c < huge"
    using assms(3,4) by simp
  have "0 \<le> c - x" "c - x \<le> c"
    using assms(5,6) by simp_all
  from to_double_between [OF r this assms(3) ch]
  have c1: "to_double rnd (c - x) = Finite c1" "0 \<le> c1" "c1 \<le> c"
    by (simp_all add: c1_def)
  have c1f: "rnd c1 = c1"
    unfolding c1_def by (rule rounding_idem [OF r])
  have c1h: "c1 < huge"
    using c1(3) ch by simp
  have "0 \<le> c1 * e" "c1 * e \<le> c1"
    using c1(2) assms(8,9) by (simp_all add: mult_left_le)
  from to_double_between [OF r this c1f c1h]
  have q: "to_double rnd (c1 * e) = Finite q" "0 \<le> q" "q \<le> c1"
    by (simp_all add: q_def)
  have qf: "rnd q = q"
    unfolding q_def by (rule rounding_idem [OF r])
  have lo: "x \<le> rnd (x + q)"
    using q(2) by (intro rounding_ge [OF r _ assms(7)]) simp
  have "rnd q \<le> rnd (c1 * 1)"
    unfolding q_def rounding_idem [OF r] using c1(2) assms(9)
    by (intro rounding_mono [OF r] mult_left_mono)
  then have qc: "q \<le> c1"
    by (simp add: qf c1f)
  have up: "rnd (x + q) \<le> rnd (x + c1)"
    using qc by (intro rounding_mono [OF r]) simp
  have "x + c1 \<le> 2 * c"
    using assms(6) c1(3) by simp
  then have "rnd (x + c1) \<le> rnd (2 * c)"
    by (rule rounding_mono [OF r])
  then have top: "rnd (x + c1) < huge"
    using assms(4) by simp
  have "- huge < rnd (x + q)" "rnd (x + q) < huge"
    using lo assms(5) huge_pos up top by simp_all
  then have y: "to_double rnd (x + q) = Finite (rnd (x + q))"
    by (rule to_double_Finite)
  have s: "sub_d rnd (Finite c) (Finite x) = Finite c1"
    using c1(1) by (simp add: sub_d_def)
  show "add_d rnd (Finite x) (mul_d rnd (sub_d rnd (Finite c) (Finite x)) (Finite e)) =
           Finite (rnd (x + rnd (rnd (c - x) * e)))"
    unfolding s by (simp add: q(1) y) (simp add: q_def c1_def)
  show "x \<le> rnd (x + rnd (rnd (c - x) * e))"
    using lo by (simp add: q_def c1_def)
  show "rnd (x + rnd (rnd (c - x) * e)) \<le> rnd (x + rnd (c - x))"
    using up by (simp add: q_def c1_def)
qed

lemma func_double_at:
  assumes "rounding rnd" and "0 < c" and "rnd c = c" and "rnd (2 * c) < huge"
    and "rate_factor_double rnd T dH dS = Finite m"
    and "pow10_d rnd logA = Finite a"
    and "arrhenius_double rnd T E_a = Finite b" and "0 < b"
    and "x_double rnd (Finite c) T dH dS = Finite x" and "0 \<le> x" and "x \<le> c" and "rnd x = x"
    and "exponential_double rnd (to_double rnd (s * a)) (Finite b) (Finite m) = Finite e"
    and "0 \<le> e" and "e \<le> 1"
  shows "func_double rnd (Finite s) (Finite c) T logA E_a dH dS =
           Finite (rnd (x + rnd (rnd (c - x) * e)))"
  unfolding func_double_parts assms(5,6,7,9)
  using assms(13) func_double_value(1) [OF assms(1,2,3,4,10,11,12,14,15)]
  by simp

subsection \<open>Round to nearest\<close>

text \<open>
  Round-to-nearest is a rounding in the sense above, and every whole number below
  \<open>2 ^ 53\<close> is a double.
\<close>

lemma round_half_even_of_int [simp]: "round_half_even (of_int n) = of_int n"
  by (simp add: round_half_even_def Let_def)

lemma round_half_even_bounds:
  "of_int \<lfloor>x\<rfloor> \<le> round_half_even x" "round_half_even x \<le> of_int \<lfloor>x\<rfloor> + 1"
  unfolding round_half_even_def Let_def by auto

lemma round_half_even_cases:
  obtains n :: int where "round_half_even x = of_int n"
proof -
  have "round_half_even x \<in> \<int>"
    by (simp add: round_half_even_def Let_def)
  then show ?thesis
    using that by (auto elim: Ints_cases)
qed

lemma round_half_even_mono:
  assumes "x \<le> y"
  shows "round_half_even x \<le> round_half_even y"
proof (cases "\<lfloor>x\<rfloor> = \<lfloor>y\<rfloor>")
  case True
  then show ?thesis
    using assms unfolding round_half_even_def Let_def by auto
next
  case False
  then have "\<lfloor>x\<rfloor> + 1 \<le> \<lfloor>y\<rfloor>"
    using floor_mono [OF assms] by linarith
  then have "(of_int \<lfloor>x\<rfloor> :: real) + 1 \<le> of_int \<lfloor>y\<rfloor>"
    by linarith
  then show ?thesis
    using round_half_even_bounds(2) [of x] round_half_even_bounds(1) [of y] by linarith
qed

lemma round_half_even_minus: "round_half_even (- x) = - round_half_even x"
proof (cases "x \<in> \<int>")
  case True
  then obtain n where "x = of_int n"
    by (auto elim: Ints_cases)
  then have "- x = of_int (- n)"
    by simp
  then show ?thesis
    unfolding \<open>x = of_int n\<close> by (simp only: round_half_even_of_int)
next
  case False
  then have "x \<noteq> of_int \<lfloor>x\<rfloor>"
    by (metis Ints_of_int)
  then have f: "\<lfloor>- x\<rfloor> = - \<lfloor>x\<rfloor> - 1"
    by (simp add: floor_minus ceiling_altdef)
  have e: "even (- \<lfloor>x\<rfloor> - 1) \<longleftrightarrow> \<not> even \<lfloor>x\<rfloor>"
    by simp
  show ?thesis
    unfolding round_half_even_def Let_def f e by (auto simp: algebra_simps)
qed


lemma round_half_even_0 [simp]: "round_half_even 0 = 0"
  using round_half_even_of_int [of 0] by simp

lemma ulp_pos: "0 < ulp r"
  by (simp add: ulp_def)

lemma exponent_of_minus [simp]: "exponent_of (- r) = exponent_of r"
  by (simp add: exponent_of_def)

lemma ulp_minus [simp]: "ulp (- r) = ulp r"
  by (simp add: ulp_def)

lemma exponent_of_ge: "- 1022 \<le> exponent_of r"
  by (simp add: exponent_of_def)

lemma round_nearest_even_minus: "round_nearest_even (- r) = - round_nearest_even r"
  by (simp add: round_nearest_even_def round_half_even_minus)

lemma round_nearest_even_0 [simp]: "round_nearest_even 0 = 0"
  by (simp add: round_nearest_even_def)

lemma powr_shift:
  "(2::real) powr of_int e = 2 ^ 52 * 2 powr of_int (e - 52)"
  "(2::real) powr of_int (e + 1) = 2 ^ 53 * 2 powr of_int (e - 52)"
proof -
  have "(of_int e :: real) = of_int (e - 52) + real 52"
    by simp
  then have "(2::real) powr of_int e = 2 powr (of_int (e - 52) + real 52)"
    by (simp only:)
  also have "\<dots> = 2 powr of_int (e - 52) * 2 powr real 52"
    by (rule powr_add)
  also have "(2::real) powr real 52 = 2 ^ 52"
    by (rule powr_realpow) simp
  finally show "(2::real) powr of_int e = 2 ^ 52 * 2 powr of_int (e - 52)"
    by (simp only: mult.commute)
  have "(of_int (e + 1) :: real) = of_int (e - 52) + real 53"
    by simp
  then have "(2::real) powr of_int (e + 1) = 2 powr (of_int (e - 52) + real 53)"
    by (simp only:)
  also have "\<dots> = 2 powr of_int (e - 52) * 2 powr real 53"
    by (rule powr_add)
  also have "(2::real) powr real 53 = 2 ^ 53"
    by (rule powr_realpow) simp
  finally show "(2::real) powr of_int (e + 1) = 2 ^ 53 * 2 powr of_int (e - 52)"
    by (simp only: mult.commute)
qed

lemma ulp_shift:
  "2 powr of_int (exponent_of r) = 2 ^ 52 * ulp r"
  "2 powr of_int (exponent_of r + 1) = 2 ^ 53 * ulp r"
  unfolding ulp_def by (rule powr_shift)+

lemma abs_less_powr:
  assumes "r \<noteq> 0"
  shows "\<bar>r\<bar> < 2 powr of_int (exponent_of r + 1)"
proof -
  have p: "0 < \<bar>r\<bar>"
    using assms by simp
  have "log 2 \<bar>r\<bar> < of_int (\<lfloor>log 2 \<bar>r\<bar>\<rfloor> + 1)"
    by linarith
  also have "\<dots> \<le> of_int (exponent_of r + 1)"
    by (simp add: exponent_of_def)
  finally have "2 powr log 2 \<bar>r\<bar> < 2 powr of_int (exponent_of r + 1)"
    by (rule powr_less_mono) simp
  then show ?thesis
    using p by simp
qed

lemma powr_le_abs:
  assumes "r \<noteq> 0" and "- 1022 < exponent_of r"
  shows "2 powr of_int (exponent_of r) \<le> \<bar>r\<bar>"
proof -
  have p: "0 < \<bar>r\<bar>"
    using assms by simp
  have "exponent_of r = \<lfloor>log 2 \<bar>r\<bar>\<rfloor>"
    using assms(2) by (simp add: exponent_of_def max_def split: if_splits)
  then have "of_int (exponent_of r) \<le> log 2 \<bar>r\<bar>"
    by simp
  then have "2 powr of_int (exponent_of r) \<le> 2 powr log 2 \<bar>r\<bar>"
    by (rule powr_mono) simp
  then show ?thesis
    using p by simp
qed

lemma exponent_of_mono:
  assumes "0 < r" and "r \<le> s"
  shows "exponent_of r \<le> exponent_of s"
proof -
  have "log 2 \<bar>r\<bar> \<le> log 2 \<bar>s\<bar>"
    using assms by simp
  then have "\<lfloor>log 2 \<bar>r\<bar>\<rfloor> \<le> \<lfloor>log 2 \<bar>s\<bar>\<rfloor>"
    by (rule floor_mono)
  then show ?thesis
    by (simp add: exponent_of_def)
qed

lemma round_nearest_even_nonneg:
  assumes "0 \<le> r"
  shows "0 \<le> round_nearest_even r"
proof -
  have "0 \<le> r / ulp r"
    using assms ulp_pos [of r] by simp
  then have "round_half_even 0 \<le> round_half_even (r / ulp r)"
    by (rule round_half_even_mono)
  then show ?thesis
    using ulp_pos [of r] by (simp add: round_nearest_even_def)
qed

lemma round_nearest_even_upper:
  assumes "0 < r"
  shows "round_nearest_even r \<le> 2 powr of_int (exponent_of r + 1)"
proof -
  have "r < 2 ^ 53 * ulp r"
    using abs_less_powr [of r] assms unfolding ulp_shift by simp
  then have "r / ulp r \<le> of_int (2 ^ 53)"
    using ulp_pos [of r] by (simp add: field_simps)
  then have "round_half_even (r / ulp r) \<le> round_half_even (of_int (2 ^ 53))"
    by (rule round_half_even_mono)
  then have "round_half_even (r / ulp r) \<le> 2 ^ 53"
    by (simp only: round_half_even_of_int) simp
  then have "round_half_even (r / ulp r) * ulp r \<le> 2 ^ 53 * ulp r"
    using ulp_pos [of r] by (intro mult_right_mono) simp_all
  then show ?thesis
    unfolding round_nearest_even_def ulp_shift .
qed

lemma round_nearest_even_lower:
  assumes "0 < r" and "- 1022 < exponent_of r"
  shows "2 powr of_int (exponent_of r) \<le> round_nearest_even r"
proof -
  have "2 ^ 52 * ulp r \<le> r"
    using powr_le_abs [of r] assms unfolding ulp_shift by simp
  then have "of_int (2 ^ 52) \<le> r / ulp r"
    using ulp_pos [of r] by (simp add: field_simps)
  then have "round_half_even (of_int (2 ^ 52)) \<le> round_half_even (r / ulp r)"
    by (rule round_half_even_mono)
  then have "2 ^ 52 \<le> round_half_even (r / ulp r)"
    by (simp only: round_half_even_of_int) simp
  then have "2 ^ 52 * ulp r \<le> round_half_even (r / ulp r) * ulp r"
    using ulp_pos [of r] by (intro mult_right_mono) simp_all
  then show ?thesis
    unfolding round_nearest_even_def ulp_shift .
qed

lemma round_nearest_even_mono_pos:
  assumes "0 < r" and "r \<le> s"
  shows "round_nearest_even r \<le> round_nearest_even s"
proof (cases "exponent_of r = exponent_of s")
  case True
  then have u: "ulp r = ulp s"
    by (simp add: ulp_def)
  have "r / ulp s \<le> s / ulp s"
    using assms(2) ulp_pos [of s] by (intro divide_right_mono) simp_all
  then have "round_half_even (r / ulp s) \<le> round_half_even (s / ulp s)"
    by (rule round_half_even_mono)
  then show ?thesis
    unfolding round_nearest_even_def u using ulp_pos [of s] by (intro mult_right_mono) simp_all
next
  case False
  then have e: "exponent_of r + 1 \<le> exponent_of s"
    using exponent_of_mono [OF assms] by simp
  then have l: "- 1022 < exponent_of s"
    using exponent_of_ge [of r] by simp
  have s: "0 < s"
    using assms by simp
  have "round_nearest_even r \<le> 2 powr of_int (exponent_of r + 1)"
    by (rule round_nearest_even_upper [OF assms(1)])
  also have "\<dots> \<le> 2 powr of_int (exponent_of s)"
    using e by (intro powr_mono) simp_all
  also have "\<dots> \<le> round_nearest_even s"
    by (rule round_nearest_even_lower [OF s l])
  finally show ?thesis .
qed

lemma round_nearest_even_mono:
  assumes "r \<le> s"
  shows "round_nearest_even r \<le> round_nearest_even s"
proof -
  consider "0 < r" | "r \<le> 0" "0 \<le> s" | "s < 0"
    by linarith
  then show ?thesis
  proof cases
    case 1
    then show ?thesis
      using assms by (rule round_nearest_even_mono_pos)
  next
    case 2
    have "0 \<le> round_nearest_even (- r)"
      using 2(1) by (intro round_nearest_even_nonneg) simp
    then have "round_nearest_even r \<le> 0"
      by (simp add: round_nearest_even_minus)
    also have "0 \<le> round_nearest_even s"
      by (rule round_nearest_even_nonneg [OF 2(2)])
    finally show ?thesis .
  next
    case 3
    then have "0 < - s" "- s \<le> - r"
      using assms by simp_all
    then have "round_nearest_even (- s) \<le> round_nearest_even (- r)"
      by (rule round_nearest_even_mono_pos)
    then show ?thesis
      by (simp add: round_nearest_even_minus)
  qed
qed


lemma exponent_of_representable:
  fixes k :: int
  assumes "- 1022 \<le> e" and "0 < k" and "k < 2 ^ 53" and "2 ^ 52 \<le> k \<or> e = - 1022"
  shows "exponent_of (of_int k * 2 powr of_int (e - 52)) = e"
proof -
  define u :: real where "u = 2 powr of_int (e - 52)"
  define y where "y = of_int k * u"
  have u: "0 < u"
    by (simp add: u_def)
  have y: "0 < y"
    using assms(2) u by (simp add: y_def)
  have s: "2 powr of_int e = 2 ^ 52 * u" "2 powr of_int (e + 1) = 2 ^ 53 * u"
    unfolding u_def by (rule powr_shift)+
  have "of_int k < (2 ^ 53 :: real)"
    using assms(3) by (metis of_int_less_iff of_int_numeral of_int_power)
  then have up: "y < 2 powr of_int (e + 1)"
    unfolding s y_def using u by simp
  have "exponent_of y = e"
  proof (cases "2 ^ 52 \<le> k")
    case True
    then have "(2 ^ 52 :: real) \<le> of_int k"
      by (metis of_int_le_iff of_int_numeral of_int_power)
    then have "2 powr of_int e \<le> y"
      unfolding s y_def using u by simp
    then have "\<lfloor>log 2 y\<rfloor> = e"
      using up y by (simp add: floor_log_eq_powr_iff)
    then show ?thesis
      using assms(1) y by (simp add: exponent_of_def)
  next
    case False
    then have e: "e = - 1022"
      using assms(4) by simp
    from False have "k < 2 ^ 52"
      by simp
    then have "of_int k < (2 ^ 52 :: real)"
      by (metis of_int_less_iff of_int_numeral of_int_power)
    then have "y < 2 powr of_int e"
      unfolding s y_def using u by simp
    then have "log 2 y < of_int e"
      using y by (simp add: log_less_iff)
    then have "\<lfloor>log 2 y\<rfloor> < e"
      by (simp add: floor_less_iff)
    then have "max \<lfloor>log 2 y\<rfloor> (- 1022) = e"
      unfolding e by simp
    then show ?thesis
      using y by (simp add: exponent_of_def)
  qed
  then show ?thesis
    unfolding y_def u_def .
qed

lemma round_nearest_even_representable:
  fixes k :: int
  assumes "- 1022 \<le> e" and "0 < k" and "k < 2 ^ 53" and "2 ^ 52 \<le> k \<or> e = - 1022"
  shows "round_nearest_even (of_int k * 2 powr of_int (e - 52)) = of_int k * 2 powr of_int (e - 52)"
proof -
  have "ulp (of_int k * 2 powr of_int (e - 52)) = 2 powr of_int (e - 52)"
    unfolding ulp_def exponent_of_representable [OF assms] ..
  then show ?thesis
    by (simp add: round_nearest_even_def)
qed

lemma round_nearest_even_idem_pos:
  assumes "0 < r"
  shows "round_nearest_even (round_nearest_even r) = round_nearest_even r"
proof -
  define e where "e = exponent_of r"
  obtain n :: int where n: "round_half_even (r / ulp r) = of_int n"
    by (rule round_half_even_cases)
  have v: "round_nearest_even r = of_int n * 2 powr of_int (e - 52)"
    unfolding round_nearest_even_def n by (simp only: ulp_def e_def)
  have e: "- 1022 \<le> e"
    unfolding e_def by (rule exponent_of_ge)
  have "0 \<le> round_nearest_even r"
    using assms by (intro round_nearest_even_nonneg) simp
  then have n0: "0 \<le> n"
    unfolding v by (simp add: zero_le_mult_iff)
  have "round_nearest_even r \<le> 2 ^ 53 * 2 powr of_int (e - 52)"
    using round_nearest_even_upper [OF assms] unfolding e_def [symmetric] powr_shift(2) [of e] .
  then have "of_int n \<le> (2 ^ 53 :: real)"
    unfolding v by simp
  then have n1: "n \<le> 2 ^ 53"
    by (metis of_int_le_iff of_int_numeral of_int_power)
  have n2: "2 ^ 52 \<le> n" if "- 1022 < e"
  proof -
    have "2 ^ 52 * 2 powr of_int (e - 52) \<le> round_nearest_even r"
      using round_nearest_even_lower [OF assms] that
      unfolding e_def [symmetric] powr_shift(1) [of e, symmetric] by simp
    then have "(2 ^ 52 :: real) \<le> of_int n"
      unfolding v by simp
    then show ?thesis
      by (metis of_int_le_iff of_int_numeral of_int_power)
  qed
  consider "n = 0" | "0 < n" "n < 2 ^ 53" | "n = 2 ^ 53"
    using n0 n1 by linarith
  then show ?thesis
  proof cases
    case 1
    then show ?thesis
      unfolding v by simp
  next
    case 2
    have "2 ^ 52 \<le> n \<or> e = - 1022"
      using n2 e by linarith
    from round_nearest_even_representable [OF e 2 this] show ?thesis
      unfolding v .
  next
    case 3
    have "(2::real) ^ 53 * 2 powr of_int (e - 52) = 2 powr of_int (e + 1)"
      by (rule powr_shift(2) [symmetric])
    also have "\<dots> = 2 ^ 52 * 2 powr of_int (e + 1 - 52)"
      by (rule powr_shift(1))
    finally have "(of_int n :: real) * 2 powr of_int (e - 52)
        = of_int (2 ^ 52) * 2 powr of_int (e + 1 - 52)"
      unfolding 3 by simp
    moreover have "round_nearest_even (of_int (2 ^ 52) * 2 powr of_int (e + 1 - 52))
        = of_int (2 ^ 52) * 2 powr of_int (e + 1 - 52)"
      using e by (intro round_nearest_even_representable) simp_all
    ultimately show ?thesis
      unfolding v by simp
  qed
qed

lemma round_nearest_even_idem:
  "round_nearest_even (round_nearest_even r) = round_nearest_even r"
proof -
  consider "0 < r" | "r = 0" | "0 < - r"
    by linarith
  then show ?thesis
  proof cases
    case 1
    then show ?thesis
      by (rule round_nearest_even_idem_pos)
  next
    case 2
    then show ?thesis
      by simp
  next
    case 3
    from round_nearest_even_idem_pos [OF this] show ?thesis
      by (simp add: round_nearest_even_minus)
  qed
qed

lemma round_nearest_even_power2: "round_nearest_even (2 ^ n) = 2 ^ n"
proof -
  have "(2::real) ^ n = 2 powr of_int (int n)"
    by (simp add: powr_realpow)
  also have "\<dots> = of_int (2 ^ 52) * 2 powr of_int (int n - 52)"
    using powr_shift(1) [of "int n"] by simp
  finally have e: "(2::real) ^ n = of_int (2 ^ 52) * 2 powr of_int (int n - 52)" .
  have "round_nearest_even (of_int (2 ^ 52) * 2 powr of_int (int n - 52))
      = of_int (2 ^ 52) * 2 powr of_int (int n - 52)"
    by (intro round_nearest_even_representable) simp_all
  then show ?thesis
    unfolding e [symmetric] .
qed


lemma round_nearest_even_tiny: "round_nearest_even tiny = 0"
proof -
  have t: "tiny = 2 powr of_int (- 1075)"
  proof -
    have "(2::real) powr of_int (- 1075) = 2 powr (- real 1075)"
      by simp
    also have "\<dots> = 1 / 2 powr real 1075"
      by (simp only: powr_minus_divide)
    also have "(2::real) powr real 1075 = 2 ^ 1075"
      by (rule powr_realpow) simp
    finally show ?thesis
      by (simp only: tiny_def)
  qed
  have p: "0 < tiny"
    by (simp add: tiny_def)
  have "log 2 tiny = of_int (- 1075)"
    unfolding t by (rule log_powr_cancel) simp_all
  then have "\<lfloor>log 2 \<bar>tiny\<bar>\<rfloor> = - 1075"
    using p by simp
  then have "exponent_of tiny = - 1022"
    by (simp add: exponent_of_def)
  then have u: "ulp tiny = 2 powr of_int (- 1074)"
    by (simp add: ulp_def)
  have "(2::real) powr of_int (- 1074) = 2 powr (of_int (- 1075) + 1)"
    by simp
  also have "\<dots> = 2 powr of_int (- 1075) * 2 powr 1"
    by (rule powr_add)
  also have "\<dots> = 2 powr of_int (- 1075) * 2"
    by simp
  finally have h: "(2::real) powr of_int (- 1074) = 2 powr of_int (- 1075) * 2" .
  have "ulp tiny = tiny * 2"
    by (simp only: u h t [symmetric])
  then have "tiny / ulp tiny = 1 / 2"
    using p by simp
  moreover have "round_half_even (1 / 2) = 0"
    by (simp add: round_half_even_def Let_def)
  ultimately show ?thesis
    by (simp add: round_nearest_even_def)
qed

lemma round_nearest_even_int_pos:
  fixes n :: int
  assumes "0 < n" and "n < 2 ^ 53"
  shows "round_nearest_even (of_int n) = of_int n"
proof -
  define e where "e = \<lfloor>log 2 (of_int n)\<rfloor>"
  have n: "(0::real) < of_int n"
    using assms(1) by simp
  from e_def [symmetric] have b: "(2::real) powr of_int e \<le> of_int n"
    "(of_int n :: real) < 2 powr of_int (e + 1)"
    using n by (simp_all add: floor_log_eq_powr_iff)
  have "(1::real) \<le> of_int n"
    using assms(1) by (metis of_int_1_le_iff int_one_le_iff_zero_less)
  then have "0 \<le> log 2 (of_int n)"
    by simp
  then have e0: "0 \<le> e"
    unfolding e_def by simp
  have "of_int n < (2 ^ 53 :: real)"
    using assms(2) by (metis of_int_less_iff of_int_numeral of_int_power)
  then have "(2::real) powr of_int e < 2 powr real 53"
    using b(1) by (simp add: powr_realpow)
  then have "real_of_int e < real 53"
    using powr_less_cancel_iff [of 2 "real_of_int e" "real 53"] by simp
  then have e1: "e \<le> 52"
    by simp
  define j where "j = nat (52 - e)"
  define k where "k = n * 2 ^ j"
  have j: "of_int (52 - e) = real j"
    using e1 by (simp add: j_def)
  have pj: "(2::real) ^ j = 2 powr of_int (52 - e)"
    unfolding j by (simp add: powr_realpow)
  have one: "(2::real) powr of_int (52 - e) * 2 powr of_int (e - 52) = 1"
    by (simp add: powr_add [symmetric])
  have kv: "of_int k * 2 powr of_int (e - 52) = (of_int n :: real)"
    using one by (simp add: k_def pj mult.assoc)
  have r52: "(2::real) powr real 52 = 2 ^ 52" and r53: "(2::real) powr real 53 = 2 ^ 53"
    by (rule powr_realpow, simp)+
  have s: "2 powr of_int e * 2 powr of_int (52 - e) = (2::real) ^ 52"
    "2 powr of_int (e + 1) * 2 powr of_int (52 - e) = (2::real) ^ 53"
  proof -
    have "(of_int e :: real) + of_int (52 - e) = real 52"
      by simp
    then have "2 powr of_int e * 2 powr of_int (52 - e) = (2::real) powr real 52"
      by (simp only: powr_add [symmetric])
    then show "2 powr of_int e * 2 powr of_int (52 - e) = (2::real) ^ 52"
      by (simp only: r52)
    have "(of_int (e + 1) :: real) + of_int (52 - e) = real 53"
      by simp
    then have "2 powr of_int (e + 1) * 2 powr of_int (52 - e) = (2::real) powr real 53"
      by (simp only: powr_add [symmetric])
    then show "2 powr of_int (e + 1) * 2 powr of_int (52 - e) = (2::real) ^ 53"
      by (simp only: r53)
  qed
  have "(2::real) powr of_int e * 2 powr of_int (52 - e) \<le> of_int n * 2 powr of_int (52 - e)"
    using b(1) by (intro mult_right_mono) simp_all
  then have "(2 ^ 52 :: real) \<le> of_int k"
    unfolding s by (simp add: k_def pj)
  then have k1: "2 ^ 52 \<le> k"
    by (metis of_int_le_iff of_int_numeral of_int_power)
  have "(of_int n :: real) * 2 powr of_int (52 - e) < 2 powr of_int (e + 1) * 2 powr of_int (52 - e)"
    using b(2) by (intro mult_strict_right_mono) simp_all
  then have "of_int k < (2 ^ 53 :: real)"
    unfolding s by (simp add: k_def pj)
  then have k2: "k < 2 ^ 53"
    by (metis of_int_less_iff of_int_numeral of_int_power)
  have k0: "0 < k"
    using k1 by simp
  have "- 1022 \<le> e"
    using e0 by simp
  from round_nearest_even_representable [OF this k0 k2] k1 show ?thesis
    unfolding kv by simp
qed

lemma round_nearest_even_int:
  fixes n :: int
  assumes "\<bar>n\<bar> < 2 ^ 53"
  shows "round_nearest_even (of_int n) = of_int n"
proof -
  consider "0 < n" | "n = 0" | "0 < - n"
    by linarith
  then show ?thesis
  proof cases
    case 1
    then show ?thesis
      using assms by (intro round_nearest_even_int_pos) simp_all
  next
    case 2
    then show ?thesis
      by simp
  next
    case 3
    then have "round_nearest_even (of_int (- n)) = of_int (- n)"
      using assms by (intro round_nearest_even_int_pos) simp_all
    then show ?thesis
      by (simp add: round_nearest_even_minus)
  qed
qed

lemma huge_greater: "2 ^ 64 < huge"
  unfolding huge_def by (intro power_strict_increasing) simp_all

lemma rounding_round_nearest_even: "rounding round_nearest_even"
  unfolding rounding_def
  using round_nearest_even_mono round_nearest_even_idem round_nearest_even_minus
    round_nearest_even_power2 round_nearest_even_tiny
  by (simp add: mono_def)

lemma to_double_within:
  assumes "rounding rnd" and "lo \<le> r" and "r \<le> hi" and "rnd lo = lo" and "rnd hi = hi"
    and "- huge < lo" and "hi < huge"
  obtains v where "to_double rnd r = Finite v" and "lo \<le> v" and "v \<le> hi"
proof -
  have 1: "lo \<le> rnd r"
    by (rule rounding_ge [OF assms(1,2,4)])
  have 2: "rnd r \<le> hi"
    by (rule rounding_le [OF assms(1,3,5)])
  have "to_double rnd r = Finite (rnd r)"
    using 1 2 assms(6,7) by (intro to_double_Finite) simp_all
  then show ?thesis
    using that 1 2 by blast
qed

lemma to_double_int:
  fixes n :: int
  assumes "\<bar>n\<bar> < 2 ^ 53"
  shows "to_double round_nearest_even (of_int n) = Finite (of_int n)"
proof -
  have "\<bar>of_int n :: real\<bar> < of_int (2 ^ 53)"
    using assms by (metis of_int_abs of_int_less_iff)
  then have "\<bar>of_int n :: real\<bar> < 2 ^ 64"
    by simp
  then have "- huge < (of_int n :: real)" "(of_int n :: real) < huge"
    using huge_greater by linarith+
  then have "- huge < round_nearest_even (of_int n)" "round_nearest_even (of_int n) < huge"
    by (simp_all only: round_nearest_even_int [OF assms])
  then have "to_double round_nearest_even (of_int n) = Finite (round_nearest_even (of_int n))"
    by (rule to_double_Finite)
  then show ?thesis
    by (simp only: round_nearest_even_int [OF assms])
qed

lemma round_nearest_even_values:
  "round_nearest_even 1 = 1" "round_nearest_even 2 = 2" "round_nearest_even 4 = 4"
  "round_nearest_even 8 = 8" "round_nearest_even 9 = 9"
  "round_nearest_even 298 = 298" "round_nearest_even 299 = 299"
  "round_nearest_even 2384 = 2384" "round_nearest_even 2691 = 2691"
  "round_nearest_even (- 4195) = - 4195" "round_nearest_even (- 3716) = - 3716"
  "round_nearest_even (- 19) = - 19"
  using round_nearest_even_int [of 1] round_nearest_even_int [of 2] round_nearest_even_int [of 4]
    round_nearest_even_int [of 8] round_nearest_even_int [of 9]
    round_nearest_even_int [of 298] round_nearest_even_int [of 299]
    round_nearest_even_int [of 2384] round_nearest_even_int [of 2691]
    round_nearest_even_int [of "- 4195"] round_nearest_even_int [of "- 3716"]
    round_nearest_even_int [of "- 19"]
  by simp_all

lemma to_double_values:
  "to_double round_nearest_even 1 = Finite 1"
  "to_double round_nearest_even 2 = Finite 2"
  "to_double round_nearest_even (- 10000000) = Finite (- 10000000)"
  "to_double round_nearest_even 1000000 = Finite 1000000"
  using to_double_int [of 1] to_double_int [of 2] to_double_int [of "- 10000000"]
    to_double_int [of 1000000]
  by simp_all

lemma func_double_nan_at_zero:
  assumes "rounding rnd" and "K_double rnd T dH dS = Finite 0"
    and "pow10_d rnd logA = Finite a" and "arrhenius_double rnd T E_a = Finite b"
  shows "func_double rnd (Finite 0) C_0 T logA E_a dH dS = NotANumber"
proof -
  have "rate_factor_double rnd T dH dS = PlusInf"
    by (simp add: rate_factor_double_def assms(2) inf_of_sign_def)
  moreover have "mul_d rnd (mul_d rnd (mul_d rnd (Finite 0) (Finite a)) (Finite b)) (Finite (- 1))
      = Finite 0"
    by (simp add: to_double_0 [OF assms(1)])
  ultimately have "exponential_double rnd (mul_d rnd (Finite 0) (Finite a)) (Finite b)
      (rate_factor_double rnd T dH dS) = NotANumber"
    by (simp add: exponential_double_def inf_of_sign_def)
  then show ?thesis
    unfolding func_double_parts assms(3,4)
    by (cases "sub_d rnd C_0 (x_double rnd C_0 T dH dS)"; cases "x_double rnd C_0 T dH dS") simp_all
qed

lemma K_double_underflow:
  "K_double round_nearest_even (to_double round_nearest_even 298.15) (Finite (- 10000000)) (Finite 0)
     = Finite 0"
  "\<exists>b. arrhenius_double round_nearest_even (to_double round_nearest_even 298.15) (Finite 45000)
     = Finite b"
proof -
  note r = rounding_round_nearest_even
  note f = round_nearest_even_values
  obtain T where T: "to_double round_nearest_even 298.15 = Finite T" "298 \<le> T" "T \<le> 299"
    by (rule to_double_within [OF r, of 298 "298.15" 299])
      (use huge_greater in \<open>simp_all add: f\<close>)
  obtain R where R: "to_double round_nearest_even 8.314 = Finite R" "8 \<le> R" "R \<le> 9"
    by (rule to_double_within [OF r, of 8 "8.314" 9])
      (use huge_greater in \<open>simp_all add: f\<close>)
  have "2384 \<le> R * T"
    using mult_mono [of 8 R 298 T] R(2) T(2) by simp
  moreover have "R * T \<le> 2691"
    using mult_mono [of R 9 T 299] R(2,3) T(2,3) by simp
  ultimately obtain P where P: "to_double round_nearest_even (R * T) = Finite P"
    "2384 \<le> P" "P \<le> 2691"
    by (rule to_double_within [OF r, of 2384 "R * T" 2691])
      (use huge_greater in \<open>simp_all add: f\<close>)
  have P0: "0 < P"
    using P(2) by simp
  have 1: "mul_d round_nearest_even (Finite T) (Finite 0) = Finite 0"
    by (simp add: to_double_0 [OF r])
  have 2: "sub_d round_nearest_even (Finite (- 10000000)) (Finite 0) = Finite (- 10000000)"
    by (simp add: sub_d_def to_double_values)
  have 4: "mul_d round_nearest_even (Finite R) (Finite T) = Finite P"
    by (simp add: P(1))
  have "- 10000000 / P \<le> - 10000000 / 2691"
    using P0 P(3) by (simp add: field_simps)
  then have hi: "- 10000000 / P \<le> - 3716"
    by simp
  have "- 10000000 / 2384 \<le> - 10000000 / P"
    using P0 P(2) by (simp add: field_simps)
  then have lo: "- 4195 \<le> - 10000000 / P"
    by simp
  obtain Q where Q: "to_double round_nearest_even (- 10000000 / P) = Finite Q" "Q \<le> - 3716"
    by (rule to_double_within [OF r lo hi]) (use huge_greater in \<open>simp_all add: f\<close>)
  have 5: "div_d round_nearest_even (Finite (- 10000000)) (Finite P) = Finite Q"
    using P0 Q(1) by simp
  have "le_d (Finite Q) (Finite (- 2048))"
    using Q(2) by simp
  from exp_d_underflow [OF r this]
  show "K_double round_nearest_even (to_double round_nearest_even 298.15) (Finite (- 10000000))
      (Finite 0) = Finite 0"
    unfolding K_double_def T(1) R(1) 1 2 4 5 .
  have "- 45000 / P \<le> 0"
    using P0 by simp
  moreover have "- 45000 / 2384 \<le> - 45000 / P"
    using P0 P(2) by (simp add: field_simps)
  then have "- 19 \<le> - 45000 / P"
    by simp
  ultimately obtain Q' where Q': "to_double round_nearest_even (- 45000 / P) = Finite Q'" "Q' \<le> 0"
    using to_double_within [OF r, of "- 19" "- 45000 / P" 0] huge_greater
    by (auto simp: f)
  have 6: "div_d round_nearest_even (neg_d (Finite 45000)) (Finite P) = Finite Q'"
    using P0 Q'(1) by simp
  have "nonpos_d (Finite Q')"
    using Q'(2) by simp
  from exp_d_nonpos [OF r this]
  show "\<exists>b. arrhenius_double round_nearest_even (to_double round_nearest_even 298.15) (Finite 45000)
     = Finite b"
    unfolding arrhenius_double_def T(1) R(1) 4 6 by blast
qed

lemma func_below_spec_equilibrium: "func 1 1 1 0 0 8.314 0 < C_A_eq_spec 1 1 8.314 0"
proof -
  let ?e = "exp (1::real)"
  have e: "2 \<le> ?e"
    using exp_ge_add_one_self [of "1::real"] by simp
  have f: "func 1 1 1 0 0 8.314 0 = 1 / (?e + 1) + (?e / (?e + 1)) * exp (- (1 + 1 / ?e))"
  proof -
    have "1 - 1 / (?e + 1) = ?e / (?e + 1)"
      using e by (simp add: field_simps)
    then show ?thesis
      by (simp add: func_def Let_def)
  qed
  have s: "C_A_eq_spec 1 1 8.314 0 = ?e / (?e + 1)"
    by (simp add: C_A_eq_spec_def exp_minus field_simps)
  have "exp (- (1 + 1 / ?e)) < exp (- 1)"
    by simp
  also have "\<dots> = 1 / ?e"
    by (simp add: exp_minus field_simps)
  finally have "(?e / (?e + 1)) * exp (- (1 + 1 / ?e)) < (?e / (?e + 1)) * (1 / ?e)"
    using e by (intro mult_strict_left_mono) simp_all
  also have "\<dots> = 1 / (?e + 1)"
    by simp
  finally have "1 / (?e + 1) + (?e / (?e + 1)) * exp (- (1 + 1 / ?e)) < 1 / (?e + 1) + 1 / (?e + 1)"
    by simp
  then have "func 1 1 1 0 0 8.314 0 < 2 / (?e + 1)"
    unfolding f by simp
  also have "2 / (?e + 1) \<le> ?e / (?e + 1)"
    using e by (intro divide_right_mono) simp_all
  finally show ?thesis
    unfolding s .
qed

lemma doubles_at_unit_input:
  "K_double round_nearest_even (Finite 1) (Finite 0) (Finite 0) = Finite 1"
  "rate_factor_double round_nearest_even (Finite 1) (Finite 0) (Finite 0) = Finite 2"
  "pow10_d round_nearest_even (Finite 0) = Finite 1"
  "arrhenius_double round_nearest_even (Finite 1) (Finite 0) = Finite 1"
  "x_double round_nearest_even (Finite 2) (Finite 1) (Finite 0) (Finite 0) = Finite 1"
proof -
  note r = rounding_round_nearest_even
  note f = round_nearest_even_values
  note z = to_double_0 [OF r]
  note v = to_double_values
  obtain R where R: "to_double round_nearest_even 8.314 = Finite R" "8 \<le> R" "R \<le> 9"
    by (rule to_double_within [OF r, of 8 "8.314" 9])
      (use huge_greater in \<open>simp_all add: f\<close>)
  obtain R' where R': "to_double round_nearest_even R = Finite R'" "8 \<le> R'"
    by (rule to_double_within [OF r R(2,3)]) (use huge_greater in \<open>simp_all add: f\<close>)
  have d: "div_d round_nearest_even (Finite 0) (Finite R') = Finite 0"
    using R'(2) by (simp add: z)
  show K: "K_double round_nearest_even (Finite 1) (Finite 0) (Finite 0) = Finite 1"
    unfolding K_double_def R(1) using R'(2) by (simp add: sub_d_def z R'(1) v)
  show "rate_factor_double round_nearest_even (Finite 1) (Finite 0) (Finite 0) = Finite 2"
    by (simp add: rate_factor_double_def K v)
  show "pow10_d round_nearest_even (Finite 0) = Finite 1"
    by (simp add: v)
  show "arrhenius_double round_nearest_even (Finite 1) (Finite 0) = Finite 1"
    unfolding arrhenius_double_def R(1) using R'(2) by (simp add: z R'(1) v)
  show "x_double round_nearest_even (Finite 2) (Finite 1) (Finite 0) (Finite 0) = Finite 1"
    by (simp add: x_double_def K v)
qed

subsection \<open>The relaxation curve\<close>

text \<open>
  Claim C2, as the code has it, in double precision. Let \<open>t' \<ge> t \<ge> 0\<close> and \<open>C0 > 0\<close> be
  doubles with \<open>2 * C0\<close> in range, and let the terms of \<open>func\<close> that do not depend on
  \<open>t\<close> be finite: \<open>1 + 1 / exp((dH - T * dS) / (R * T))\<close>, \<open>10 ** logA\<close> and
  \<open>exp(- E_a / (R * T))\<close>, the last one positive. Then \<open>func\<close> returns finite values
  \<open>y\<close> at \<open>t\<close>, \<open>y'\<close> at \<open>t'\<close> and \<open>y0\<close> at \<open>0\<close> with \<open>x \<le> y' \<le> y \<le> y0\<close>, where \<open>x\<close> is the
  equilibrium concentration as the code computes it, \<open>C0 / (exp((dH - T * dS) / (R * T)) + 1)\<close>
  (the sign of the exponent is the code's, not the specification's), \<open>0 \<le> x \<le> C0\<close>. The
  value \<open>y0\<close> at \<open>t = 0\<close> is \<open>x + (C0 - x)\<close> as rounded, which is \<open>C0\<close> when the
  subtraction is exact. The values decay to \<open>x\<close>: \<open>func\<close> returns exactly \<open>x\<close> at every
  \<open>s\<close> with \<open>s * 10 ** logA \<ge> 2 ^ N\<close>, for any \<open>N\<close> with
  \<open>2 ^ N * exp(- E_a / (R * T)) \<ge> 2048\<close>.
\<close>

theorem func_double_relaxation:
  assumes "rounding rnd" and "0 \<le> t" and "t \<le> t'"
    and "0 < C_0" and "rnd C_0 = C_0" and "rnd (2 * C_0) < huge"
    and "rate_factor_double rnd T dH dS = Finite m"
    and "pow10_d rnd logA = Finite a"
    and "arrhenius_double rnd T E_a = Finite b" and "0 < b"
  shows "\<exists>x y y' y0.
        x_double rnd (Finite C_0) T dH dS = Finite x
      \<and> func_double rnd (Finite t) (Finite C_0) T logA E_a dH dS = Finite y
      \<and> func_double rnd (Finite t') (Finite C_0) T logA E_a dH dS = Finite y'
      \<and> func_double rnd (Finite 0) (Finite C_0) T logA E_a dH dS = Finite y0
      \<and> 0 \<le> x \<and> x \<le> C_0 \<and> x \<le> y' \<and> y' \<le> y \<and> y \<le> y0
      \<and> y0 = rnd (x + rnd (C_0 - x))
      \<and> (rnd (C_0 - x) = C_0 - x \<longrightarrow> y0 = C_0)
      \<and> (\<forall>N s. 2048 \<le> 2 ^ N * b \<and> 2 ^ N \<le> s * a \<longrightarrow>
            func_double rnd (Finite s) (Finite C_0) T logA E_a dH dS = Finite x)"
proof -
  note r = assms(1)
  have m1: "1 \<le> m"
    by (rule rate_factor_double_cases(1) [OF r assms(7)])
  then have m0: "0 < m"
    by simp
  have a0: "0 \<le> a"
    by (rule pow10_d_nonneg [OF r assms(8)])
  have "rnd C_0 \<le> rnd (2 * C_0)"
    using assms(4) by (intro rounding_mono [OF r]) simp
  then have ch: "C_0 < huge"
    using assms(5,6) by simp
  obtain x where x: "x_double rnd (Finite C_0) T dH dS = Finite x" "0 \<le> x" "x \<le> C_0" "rnd x = x"
    using x_double_range [OF r assms(4,5) ch rate_factor_double_cases(2) [OF r assms(7)]]
    by blast
  define Y where "Y e = rnd (x + rnd (rnd (C_0 - x) * e))" for e
  define E where "E s = exponential_double rnd (to_double rnd (s * a)) (Finite b) (Finite m)" for s
  have nn: "nonneg_d (to_double rnd (s * a))" if "0 \<le> s" for s
    using that a0 by (intro nonneg_to_double [OF r]) simp
  have at: "\<exists>e. E s = Finite e \<and> 0 \<le> e \<and> e \<le> 1
      \<and> func_double rnd (Finite s) (Finite C_0) T logA E_a dH dS = Finite (Y e)" if s0: "0 \<le> s" for s
  proof -
    obtain e where e: "E s = Finite e" "0 \<le> e" "e \<le> 1"
      unfolding E_def using exponential_double_range [OF r nn [OF s0] assms(10) m0] by blast
    have "func_double rnd (Finite s) (Finite C_0) T logA E_a dH dS = Finite (Y e)"
      unfolding Y_def
      by (rule func_double_at [OF r assms(4,5,6,7,8,9,10) x e [unfolded E_def]])
    then show ?thesis
      using e by blast
  qed
  have Y_bounds: "x \<le> Y e" "Y e \<le> rnd (x + rnd (C_0 - x))" if "0 \<le> e" "e \<le> 1" for e
    unfolding Y_def
    using func_double_value(2,3) [OF r assms(4,5,6) x(2,3,4) that] by simp_all
  have Y_mono: "Y e' \<le> Y e" if "e' \<le> e" for e e'
  proof -
    have "0 \<le> C_0 - x"
      using x(3) by simp
    then have "0 \<le> rnd (C_0 - x)"
      by (rule rounding_nonneg [OF r])
    then have "rnd (C_0 - x) * e' \<le> rnd (C_0 - x) * e"
      using that by (intro mult_left_mono)
    then have "rnd (rnd (C_0 - x) * e') \<le> rnd (rnd (C_0 - x) * e)"
      by (rule rounding_mono [OF r])
    then have "x + rnd (rnd (C_0 - x) * e') \<le> x + rnd (rnd (C_0 - x) * e)"
      by simp
    then show ?thesis
      unfolding Y_def by (rule rounding_mono [OF r])
  qed
  have t': "0 \<le> t'"
    using assms(2,3) by simp
  obtain e where e: "E t = Finite e" "0 \<le> e" "e \<le> 1"
    "func_double rnd (Finite t) (Finite C_0) T logA E_a dH dS = Finite (Y e)"
    using at [OF assms(2)] by blast
  obtain e' where e': "E t' = Finite e'" "0 \<le> e'" "e' \<le> 1"
    "func_double rnd (Finite t') (Finite C_0) T logA E_a dH dS = Finite (Y e')"
    using at [OF t'] by blast
  have E0: "E 0 = Finite 1"
    unfolding E_def by (simp add: to_double_0 [OF r] exponential_double_0 [OF r])
  obtain e0 where e0: "E 0 = Finite e0"
    "func_double rnd (Finite 0) (Finite C_0) T logA E_a dH dS = Finite (Y e0)"
    using at [of 0] by auto
  then have "e0 = 1"
    using E0 by simp
  then have f0: "func_double rnd (Finite 0) (Finite C_0) T logA E_a dH dS = Finite (Y 1)"
    using e0 by simp
  have Y1: "Y 1 = rnd (x + rnd (C_0 - x))"
    unfolding Y_def by (simp add: rounding_idem [OF r])
  have "t * a \<le> t' * a"
    using assms(3) a0 by (rule mult_right_mono)
  then have "le_d (to_double rnd (t * a)) (to_double rnd (t' * a))"
    by (rule le_d_to_double [OF r])
  from exponential_double_antimono [OF r this nn [OF assms(2)] nn [OF t'] assms(10) m0]
  have "le_d (E t') (E t)"
    unfolding E_def .
  then have ee: "e' \<le> e"
    using e(1) e'(1) by simp
  have decay: "func_double rnd (Finite s) (Finite C_0) T logA E_a dH dS = Finite x"
    if "2048 \<le> 2 ^ N * b \<and> 2 ^ N \<le> s * a" for N s
  proof -
    have "(0::real) < 2 ^ N"
      by simp
    then have "0 < s * a"
      using that by linarith
    then have s: "0 \<le> s"
      using a0 by (simp add: zero_less_mult_iff)
    have "le_d (Finite (2 ^ N)) (to_double rnd (s * a))"
      using that by (intro le_d_Finite_to_double [OF r] rounding_power2 [OF r]) simp_all
    from exponential_double_underflow [OF r this assms(10) _ m1] that
    have Es: "E s = Finite 0"
      unfolding E_def by simp
    obtain es where es: "E s = Finite es"
      "func_double rnd (Finite s) (Finite C_0) T logA E_a dH dS = Finite (Y es)"
      using at [OF s] by blast
    then have "es = 0"
      using Es by simp
    moreover have "Y 0 = x"
      unfolding Y_def by (simp add: rounding_0 [OF r] x(4))
    ultimately show ?thesis
      using es(2) by simp
  qed
  have exact: "rnd (C_0 - x) = C_0 - x \<longrightarrow> Y 1 = C_0"
    unfolding Y1 using assms(5) by simp
  have Y1': "Y 1 = rnd (x + rnd (C_0 - x))"
    by (rule Y1)
  show ?thesis
    apply (rule exI [of _ x], rule exI [of _ "Y e"], rule exI [of _ "Y e'"], rule exI [of _ "Y 1"])
    using x(1) e(4) e'(4) f0 x(2,3) Y_bounds(1) [OF e'(2,3)] Y_mono [OF ee]
      Y_bounds(2) [OF e(2,3), folded Y1] Y1' exact decay
    by (intro conjI allI impI) simp_all
qed

theorem func_double_relaxation_witness:
  "rounding round_nearest_even \<and> (0::real) \<le> 1 \<and> (1::real) \<le> 2 \<and> (0::real) < 2
   \<and> round_nearest_even 2 = 2 \<and> round_nearest_even (2 * 2) < huge
   \<and> rate_factor_double round_nearest_even (Finite 1) (Finite 0) (Finite 0) = Finite 2
   \<and> pow10_d round_nearest_even (Finite 0) = Finite 1
   \<and> arrhenius_double round_nearest_even (Finite 1) (Finite 0) = Finite 1
   \<and> x_double round_nearest_even (Finite 2) (Finite 1) (Finite 0) (Finite 0) = Finite 1
   \<and> func_double round_nearest_even (Finite 0) (Finite 2) (Finite 1) (Finite 0) (Finite 0)
        (Finite 0) (Finite 0) = Finite 2
   \<and> func_double round_nearest_even (Finite 2048) (Finite 2) (Finite 1) (Finite 0) (Finite 0)
        (Finite 0) (Finite 0) = Finite 1
   \<and> (\<exists>y y'. func_double round_nearest_even (Finite 1) (Finite 2) (Finite 1) (Finite 0)
                 (Finite 0) (Finite 0) (Finite 0) = Finite y
             \<and> func_double round_nearest_even (Finite 2) (Finite 2) (Finite 1) (Finite 0)
                 (Finite 0) (Finite 0) (Finite 0) = Finite y'
             \<and> 1 \<le> y' \<and> y' \<le> y \<and> y \<le> 2)"
proof -
  note r = rounding_round_nearest_even
  note d = doubles_at_unit_input
  note f = round_nearest_even_values
  have h: "(0::real) \<le> 1" "(1::real) \<le> 2" "(0::real) < 2" "round_nearest_even 2 = 2"
    "round_nearest_even (2 * 2) < huge"
    using huge_greater by (simp_all add: f)
  have p: "(0::real) < 1"
    by simp
  from func_double_relaxation [OF r h d(2,3,4) p]
  obtain x y y' y0 where t:
    "x_double round_nearest_even (Finite 2) (Finite 1) (Finite 0) (Finite 0) = Finite x"
    "func_double round_nearest_even (Finite 1) (Finite 2) (Finite 1) (Finite 0) (Finite 0)
        (Finite 0) (Finite 0) = Finite y"
    "func_double round_nearest_even (Finite 2) (Finite 2) (Finite 1) (Finite 0) (Finite 0)
        (Finite 0) (Finite 0) = Finite y'"
    "func_double round_nearest_even (Finite 0) (Finite 2) (Finite 1) (Finite 0) (Finite 0)
        (Finite 0) (Finite 0) = Finite y0"
    "x \<le> y'" "y' \<le> y" "y \<le> y0"
    "y0 = round_nearest_even (x + round_nearest_even (2 - x))"
    "\<forall>N s. 2048 \<le> 2 ^ N * (1::real) \<and> 2 ^ N \<le> s * 1 \<longrightarrow>
       func_double round_nearest_even (Finite s) (Finite 2) (Finite 1) (Finite 0) (Finite 0)
        (Finite 0) (Finite 0) = Finite x"
    by blast
  have x: "x = 1"
    using t(1) d(5) by simp
  have y0: "y0 = 2"
    unfolding t(8) x by (simp add: f)
  have "(2048::real) \<le> 2 ^ 11 * 1 \<and> (2::real) ^ 11 \<le> 2048 * 1"
    by simp
  with t(9) have far: "func_double round_nearest_even (Finite 2048) (Finite 2) (Finite 1) (Finite 0)
      (Finite 0) (Finite 0) (Finite 0) = Finite x"
    by blast
  have "\<exists>y y'. func_double round_nearest_even (Finite 1) (Finite 2) (Finite 1) (Finite 0)
                 (Finite 0) (Finite 0) (Finite 0) = Finite y
             \<and> func_double round_nearest_even (Finite 2) (Finite 2) (Finite 1) (Finite 0)
                 (Finite 0) (Finite 0) (Finite 0) = Finite y'
             \<and> 1 \<le> y' \<and> y' \<le> y \<and> y \<le> 2"
    using t(2,3,5,6,7) unfolding x y0 by blast
  then show ?thesis
    using r h d(2,3,4,5) t(4) far unfolding x y0 by (intro conjI)
qed

text \<open>
  Claim C2 as stated fails, in two ways. At \<open>t = 0\<close>, \<open>C0 = 10\<close>, \<open>T = 298.15\<close>,
  \<open>logA = 6\<close>, \<open>Ea = 45000\<close>, \<open>dH = - 10000000\<close>, \<open>dS = 0\<close> the exponent
  \<open>dH / (R * T)\<close> is about \<open>- 4034\<close>, so the equilibrium term underflows to zero,
  \<open>1 / 0\<close> is infinite, the exponent \<open>0 * inf\<close> is NaN and \<open>func\<close> returns NaN: the output
  is not finite and is not \<open>C0\<close> at \<open>t = 0\<close>. And over the reals, where \<open>func\<close> does stay
  between \<open>C0\<close> and its own \<open>x\<close>, it does not stay above the equilibrium concentration
  of the specification: at \<open>t = 1\<close>, \<open>C0 = 1\<close>, \<open>T = 1\<close>, \<open>logA = 0\<close>, \<open>Ea = 0\<close>,
  \<open>dH = 8.314\<close>, \<open>dS = 0\<close> it is below \<open>C0 / (exp (- 1) + 1)\<close>.
\<close>

theorem func_double_nan_and_spec_bound:
  "func_double round_nearest_even (Finite 0) (Finite 10) (to_double round_nearest_even 298.15)
     (Finite 6) (Finite 45000) (Finite (- 10000000)) (Finite 0) = NotANumber
   \<and> func 1 1 1 0 0 8.314 0 < C_A_eq_spec 1 1 8.314 0"
proof -
  obtain b where b: "arrhenius_double round_nearest_even (to_double round_nearest_even 298.15)
      (Finite 45000) = Finite b"
    using K_double_underflow(2) by blast
  have a: "pow10_d round_nearest_even (Finite 6) = Finite 1000000"
    by (simp add: to_double_values)
  show ?thesis
    using func_double_nan_at_zero [OF rounding_round_nearest_even K_double_underflow(1) a b]
      func_below_spec_equilibrium
    by (intro conjI)
qed

declare round_half_even_of_int [simp del] round_half_even_0 [simp del]
  round_nearest_even_0 [simp del] exponent_of_minus [simp del] ulp_minus [simp del]

section \<open>Residual assembler\<close>

subsection \<open>The numpy operations it uses\<close>

text \<open>
  Errors are values: every Python exception the modelled code can raise is a constructor
  of \<open>py_error\<close>, and a function that can raise returns \<open>py_error + 'a\<close>.
\<close>

datatype py_error = IndexError | ValueError | TypeError | NameError

definition and_then :: "py_error + 'a \<Rightarrow> ('a \<Rightarrow> py_error + 'b) \<Rightarrow> py_error + 'b" where
  "and_then m f = (case m of Inl e \<Rightarrow> Inl e | Inr x \<Rightarrow> f x)"

text \<open>\<open>xs[i]\<close> for a non-negative index: IndexError out of range.\<close>

definition index :: "'a list \<Rightarrow> nat \<Rightarrow> py_error + 'a" where
  "index xs i = (if i < length xs then Inr (xs ! i) else Inl IndexError)"

text \<open>
  Basic slicing with non-negative bounds: \<open>xs[lo:hi]\<close> is \<open>slice lo (Some hi) xs\<close> and
  \<open>xs[lo:]\<close> is \<open>slice lo None xs\<close>. Bounds beyond the end are clipped, and a slice whose
  upper bound is not above its lower bound is empty.
\<close>

definition slice :: "nat \<Rightarrow> nat option \<Rightarrow> 'a list \<Rightarrow> 'a list" where
  "slice lo hi xs = (case hi of None \<Rightarrow> drop lo xs | Some k \<Rightarrow> take (k - lo) (drop lo xs))"

text \<open>
  \<open>np.empty(shape)\<close> returns an array of the given length whose cells hold whatever the
  memory held. The contents are a parameter, \<open>uninit\<close>, so that a result is shown not to
  depend on them.
\<close>

definition np_empty :: "(nat \<Rightarrow> real) \<Rightarrow> nat \<Rightarrow> real list" where
  "np_empty uninit n = map uninit [0..<n]"

text \<open>
  Slice assignment \<open>xs[lo:hi] = v\<close>: the value must have the length of the slice, or
  length one (it is then broadcast); otherwise numpy raises ValueError.
\<close>

definition set_slice :: "nat \<Rightarrow> nat option \<Rightarrow> real list \<Rightarrow> real list \<Rightarrow> py_error + real list" where
  "set_slice lo hi v xs =
     (let n = length (slice lo hi xs);
          l = min lo (length xs)
      in if length v = n then Inr (take l xs @ v @ drop (l + n) xs)
         else if length v = 1 then Inr (take l xs @ replicate n (hd v) @ drop (l + n) xs)
         else Inl ValueError)"

text \<open>
  \<open>a - b\<close> on one-dimensional arrays: element by element when the lengths agree, an array
  of length one is broadcast, any other pair of lengths raises ValueError.
\<close>

definition np_sub :: "real list \<Rightarrow> real list \<Rightarrow> py_error + real list" where
  "np_sub a b =
     (if length a = length b then Inr (map2 (-) a b)
      else if length a = 1 then Inr (map (\<lambda>y. hd a - y) b)
      else if length b = 1 then Inr (map (\<lambda>x. x - hd b) a)
      else Inl ValueError)"

text \<open>\<open>func\<close> called with an array of times: numpy evaluates it element by element.\<close>

definition func_vec :: "real list \<Rightarrow> real \<Rightarrow> real \<Rightarrow> real \<Rightarrow> real \<Rightarrow> real \<Rightarrow> real \<Rightarrow> real list" where
  "func_vec t C_0 T logA E_a dH dS = map (\<lambda>ti. func ti C_0 T logA E_a dH dS) t"

subsection \<open>leastsqfunc\<close>

text \<open>
  \<^verbatim>\<open>
  n1 = 10
  n2 = 20

  def leastsqfunc(parameters, *arguments):
      logA = parameters[0]
      E_a = parameters[1]
      dH = parameters[2]
      dS = parameters[3]
      tcombined = arguments[0]
      C_A = arguments[1]
      C_0 = arguments[2]
      T = arguments[3]

      C_A_fit = np.empty(tcombined.shape)
      C_A_fit[:n1] = func(tcombined[:n1], C_0[0], T[0], logA, E_a, dH, dS)
      C_A_fit[n1:n2] = func(tcombined[n1:n2], C_0[1], T[1], logA, E_a, dH, dS)
      C_A_fit[n2:] = func(tcombined[n2:], C_0[2], T[2], logA, E_a, dH, dS)

      return C_A - C_A_fit
  \<close>
  The solver calls it with the five-tuple \<open>arguments\<close> of the notebook: the combined
  times, the combined observations, the tuple of initial concentrations, the tuple of
  temperatures, and a pair of slice boundaries. Arrays are values here (the store comes
  in the next section); \<open>uninit\<close> is what \<open>np.empty\<close> finds in memory, and \<open>C_0_0\<close>,
  \<open>T_0\<close> and so on name the values of \<open>C_0[0]\<close>, \<open>T[0]\<close> and so on.
\<close>

definition n1 :: nat where "n1 = 10"

definition n2 :: nat where "n2 = 20"

type_synonym arguments = "real list \<times> real list \<times> real list \<times> real list \<times> (nat \<times> nat)"

definition leastsqfunc :: "(nat \<Rightarrow> real) \<Rightarrow> real list \<Rightarrow> arguments \<Rightarrow> py_error + real list" where
  "leastsqfunc uninit parameters arguments =
     (case arguments of (tcombined, C_A, C_0, T, bounds) \<Rightarrow>
      and_then (index parameters 0) (\<lambda>logA.
      and_then (index parameters 1) (\<lambda>E_a.
      and_then (index parameters 2) (\<lambda>dH.
      and_then (index parameters 3) (\<lambda>dS.
      and_then (Inr (np_empty uninit (length tcombined))) (\<lambda>C_A_fit.
      and_then (index C_0 0) (\<lambda>C_0_0.
      and_then (index T 0) (\<lambda>T_0.
      and_then (set_slice 0 (Some n1)
                  (func_vec (slice 0 (Some n1) tcombined) C_0_0 T_0 logA E_a dH dS) C_A_fit) (\<lambda>C_A_fit.
      and_then (index C_0 1) (\<lambda>C_0_1.
      and_then (index T 1) (\<lambda>T_1.
      and_then (set_slice n1 (Some n2)
                  (func_vec (slice n1 (Some n2) tcombined) C_0_1 T_1 logA E_a dH dS) C_A_fit) (\<lambda>C_A_fit.
      and_then (index C_0 2) (\<lambda>C_0_2.
      and_then (index T 2) (\<lambda>T_2.
      and_then (set_slice n2 None
                  (func_vec (slice n2 None tcombined) C_0_2 T_2 logA E_a dH dS) C_A_fit) (\<lambda>C_A_fit.
      np_sub C_A C_A_fit)))))))))))))))"

lemma length_func_vec [simp]: "length (func_vec t C_0 T logA E_a dH dS) = length t"
  by (simp add: func_vec_def)

lemma length_np_empty [simp]: "length (np_empty u n) = n"
  by (simp add: np_empty_def)

lemma length_slice:
  "length (slice lo hi xs) = (case hi of None \<Rightarrow> length xs - lo | Some k \<Rightarrow> min (k - lo) (length xs - lo))"
  by (simp add: slice_def min.commute split: option.splits)

lemma set_slice_same:
  assumes "length v = length (slice lo hi xs)"
  shows "set_slice lo hi v xs = Inr (take lo xs @ v @ drop (lo + length v) xs)"
proof (cases "lo \<le> length xs")
  case True
  then show ?thesis using assms by (simp add: set_slice_def Let_def min_def)
next
  case False
  then have "length (slice lo hi xs) = 0"
    by (simp add: length_slice split: option.splits)
  with False assms show ?thesis
    by (simp add: set_slice_def Let_def min_def)
qed

lemma fill_lists:
  fixes u v1 v2 v3 :: "'a list"
  assumes "length v1 = min 10 (length u)"
    and "length v2 = min 10 (length u - 10)"
    and "length v3 = length u - 20"
  defines "u1 \<equiv> take 0 u @ v1 @ drop (0 + length v1) u"
  defines "u2 \<equiv> take 10 u1 @ v2 @ drop (10 + length v2) u1"
  shows "length u1 = length u" and "length u2 = length u"
    and "take 20 u2 @ v3 @ drop (20 + length v3) u2 = v1 @ v2 @ v3"
proof -
  show 1: "length u1 = length u"
    using assms(1) by (simp add: u1_def)
  show 2: "length u2 = length u"
    using assms(1,2) 1 by (simp add: u2_def)
  consider "length u \<le> 10" | "10 < length u" "length u \<le> 20" | "20 < length u"
    by linarith
  then show "take 20 u2 @ v3 @ drop (20 + length v3) u2 = v1 @ v2 @ v3"
  proof cases
    case 1
    then show ?thesis using assms(1-3) by (simp add: u1_def u2_def)
  next
    case 2
    then show ?thesis using assms(1-3) by (simp add: u1_def u2_def)
  next
    case 3
    then show ?thesis using assms(1-3) by (simp add: u1_def u2_def)
  qed
qed

lemma and_then_Inr [simp]: "and_then (Inr x) f = f x"
  by (simp add: and_then_def)

lemma and_then_Inl [simp]: "and_then (Inl e) f = Inl e"
  by (simp add: and_then_def)

lemma index_in_range [simp]: "i < length xs \<Longrightarrow> index xs i = Inr (xs ! i)"
  by (simp add: index_def)

lemma index_out_of_range [simp]: "length xs \<le> i \<Longrightarrow> index xs i = Inl IndexError"
  by (simp add: index_def)

lemma three_assignments:
  fixes v1 v2 v3 u :: "real list"
  assumes "length v1 = length (slice 0 (Some n1) tc)"
    and "length v2 = length (slice n1 (Some n2) tc)"
    and "length v3 = length (slice n2 None tc)"
    and "length u = length tc"
  shows "\<exists>u1 u2. set_slice 0 (Some n1) v1 u = Inr u1 \<and> set_slice n1 (Some n2) v2 u1 = Inr u2
           \<and> set_slice n2 None v3 u2 = Inr (v1 @ v2 @ v3)"
proof -
  define u1 where "u1 = take 0 u @ v1 @ drop (0 + length v1) u"
  define u2 where "u2 = take 10 u1 @ v2 @ drop (10 + length v2) u1"
  have l1: "length v1 = min 10 (length u)"
    using assms(1,4) by (simp add: length_slice n1_def)
  have l2: "length v2 = min 10 (length u - 10)"
    using assms(2,4) by (simp add: length_slice n1_def n2_def)
  have l3: "length v3 = length u - 20"
    using assms(3,4) by (simp add: length_slice n2_def)
  note fl = fill_lists [OF l1 l2 l3, folded u1_def, folded u2_def]
  have "set_slice 0 (Some n1) v1 u = Inr u1"
    unfolding u1_def by (rule set_slice_same) (simp add: l1 length_slice n1_def)
  moreover have "set_slice n1 (Some n2) v2 u1 = Inr u2"
    unfolding u2_def n1_def by (rule set_slice_same) (simp add: l2 length_slice n1_def n2_def fl(1))
  moreover have "set_slice n2 None v3 u2 = Inr (take 20 u2 @ v3 @ drop (20 + length v3) u2)"
    unfolding n2_def by (rule set_slice_same) (simp add: l3 length_slice fl(2))
  ultimately show ?thesis
    using fl(3) by simp
qed

lemma leastsqfunc_slices:
  assumes "4 \<le> length parameters" and "3 \<le> length C_0" and "3 \<le> length T"
  shows "leastsqfunc uninit parameters (tcombined, C_A, C_0, T, bounds) =
     np_sub C_A
       (func_vec (slice 0 (Some n1) tcombined) (C_0 ! 0) (T ! 0)
          (parameters ! 0) (parameters ! 1) (parameters ! 2) (parameters ! 3)
        @ func_vec (slice n1 (Some n2) tcombined) (C_0 ! 1) (T ! 1)
          (parameters ! 0) (parameters ! 1) (parameters ! 2) (parameters ! 3)
        @ func_vec (slice n2 None tcombined) (C_0 ! 2) (T ! 2)
          (parameters ! 0) (parameters ! 1) (parameters ! 2) (parameters ! 3))"
proof -
  let ?f = "\<lambda>lo hi k. func_vec (slice lo hi tcombined) (C_0 ! k) (T ! k)
          (parameters ! 0) (parameters ! 1) (parameters ! 2) (parameters ! 3)"
  obtain u1 u2 where
    "set_slice 0 (Some n1) (?f 0 (Some n1) 0) (np_empty uninit (length tcombined)) = Inr u1"
    "set_slice n1 (Some n2) (?f n1 (Some n2) 1) u1 = Inr u2"
    "set_slice n2 None (?f n2 None 2) u2 = Inr (?f 0 (Some n1) 0 @ ?f n1 (Some n2) 1 @ ?f n2 None 2)"
    using three_assignments [of "?f 0 (Some n1) 0" tcombined "?f n1 (Some n2) 1" "?f n2 None 2"
        "np_empty uninit (length tcombined)"]
    by auto
  moreover have "parameters \<noteq> []" and "C_0 \<noteq> []" and "T \<noteq> []"
    using assms by auto
  ultimately show ?thesis
    using assms by (simp add: leastsqfunc_def)
qed

lemma leastsqfunc_IndexError:
  assumes "length parameters < 4 \<or> length C_0 < 3 \<or> length T < 3"
  shows "leastsqfunc uninit parameters (tcombined, C_A, C_0, T, bounds) = Inl IndexError"
proof -
  let ?f = "\<lambda>lo hi c T'. func_vec (slice lo hi tcombined) c T'
          (parameters ! 0) (parameters ! 1) (parameters ! 2) (parameters ! 3)"
  have ex: "\<exists>u1 u2. set_slice 0 (Some n1) (?f 0 (Some n1) a b) (np_empty uninit (length tcombined)) = Inr u1
           \<and> set_slice n1 (Some n2) (?f n1 (Some n2) c d) u1 = Inr u2" for a b c d
    using three_assignments [of "?f 0 (Some n1) a b" tcombined "?f n1 (Some n2) c d" "?f n2 None 0 0"
        "np_empty uninit (length tcombined)"]
    by auto
  show ?thesis
  proof (cases "length parameters < 4")
    case True
    then show ?thesis
      by (auto simp: leastsqfunc_def index_def)
  next
    case False
    then have p: "4 \<le> length parameters" by simp
    from ex [of "C_0 ! 0" "T ! 0" "C_0 ! 1" "T ! 1"] obtain u1 u2 where
      s: "set_slice 0 (Some n1) (?f 0 (Some n1) (C_0 ! 0) (T ! 0)) (np_empty uninit (length tcombined)) = Inr u1"
      "set_slice n1 (Some n2) (?f n1 (Some n2) (C_0 ! 1) (T ! 1)) u1 = Inr u2"
      by auto
    from assms False have "length C_0 < 3 \<or> length T < 3" by simp
    then show ?thesis
      using p s by (auto simp: leastsqfunc_def index_def)
  qed
qed


section \<open>The assembler on a store of arrays\<close>

text \<open>
  A numpy array is a mutable object: two names can refer to the same array, and an
  assignment to a slice changes it for every holder. To state what \<open>leastsqfunc\<close> writes,
  the arrays live in a store: an address is a natural number, \<open>arrays h a\<close> is the
  content of the array at address \<open>a\<close>, and the addresses below \<open>lim h\<close> are the
  allocated ones. Tuples and floats are immutable values and stay outside the store.
  Arrays that \<open>func\<close> creates and drops within one statement are values as well.
\<close>

type_synonym addr = nat

record store =
  arrays :: "addr \<Rightarrow> real list"
  lim :: addr

definition alloc :: "real list \<Rightarrow> store \<Rightarrow> addr \<times> store" where
  "alloc xs h = (lim h, h\<lparr>arrays := (arrays h)(lim h := xs), lim := lim h + 1\<rparr>)"

definition put :: "addr \<Rightarrow> real list \<Rightarrow> store \<Rightarrow> store" where
  "put a xs h = h\<lparr>arrays := (arrays h)(a := xs)\<rparr>"

type_synonym 'a st = "store \<Rightarrow> (py_error + 'a) \<times> store"

text \<open>
  A statement takes the store and returns an error or a value, with the store it leaves.
  \<open>st_then\<close> sequences two statements: an exception ends the sequence and keeps the store
  reached so far.
\<close>

definition st_then :: "'a st \<Rightarrow> ('a \<Rightarrow> 'b st) \<Rightarrow> 'b st" where
  "st_then m f h = (case m h of (Inl e, h') \<Rightarrow> (Inl e, h') | (Inr x, h') \<Rightarrow> f x h')"

definition st_pure :: "py_error + 'a \<Rightarrow> 'a st" where
  "st_pure m h = (m, h)"

definition shape_st :: "addr \<Rightarrow> nat st" where
  "shape_st a h = (Inr (length (arrays h a)), h)"

definition np_empty_st :: "(nat \<Rightarrow> real) \<Rightarrow> nat \<Rightarrow> addr st" where
  "np_empty_st uninit n h = (case alloc (np_empty uninit n) h of (a, h') \<Rightarrow> (Inr a, h'))"

definition slice_st :: "nat \<Rightarrow> nat option \<Rightarrow> addr \<Rightarrow> real list st" where
  "slice_st lo hi a h = (Inr (slice lo hi (arrays h a)), h)"

definition set_slice_st :: "nat \<Rightarrow> nat option \<Rightarrow> real list \<Rightarrow> addr \<Rightarrow> unit st" where
  "set_slice_st lo hi v a h =
     (case set_slice lo hi v (arrays h a) of
        Inl e \<Rightarrow> (Inl e, h)
      | Inr xs \<Rightarrow> (Inr (), put a xs h))"

definition np_sub_st :: "addr \<Rightarrow> addr \<Rightarrow> addr st" where
  "np_sub_st a b h =
     (case np_sub (arrays h a) (arrays h b) of
        Inl e \<Rightarrow> (Inl e, h)
      | Inr xs \<Rightarrow> (case alloc xs h of (r, h') \<Rightarrow> (Inr r, h')))"

text \<open>
  \<open>leastsqfunc\<close> with \<open>tcombined\<close> and \<open>C_A\<close> passed by reference. \<open>np.empty\<close> allocates
  \<open>C_A_fit\<close>, the three slice assignments write into it, and the subtraction allocates the
  array that is returned.
\<close>

type_synonym arguments_st = "addr \<times> addr \<times> real list \<times> real list \<times> (nat \<times> nat)"

definition leastsqfunc_st :: "(nat \<Rightarrow> real) \<Rightarrow> real list \<Rightarrow> arguments_st \<Rightarrow> addr st" where
  "leastsqfunc_st uninit parameters arguments =
     (case arguments of (tcombined, C_A, C_0, T, bounds) \<Rightarrow>
      st_then (st_pure (index parameters 0)) (\<lambda>logA.
      st_then (st_pure (index parameters 1)) (\<lambda>E_a.
      st_then (st_pure (index parameters 2)) (\<lambda>dH.
      st_then (st_pure (index parameters 3)) (\<lambda>dS.
      st_then (shape_st tcombined) (\<lambda>shape.
      st_then (np_empty_st uninit shape) (\<lambda>C_A_fit.
      st_then (slice_st 0 (Some n1) tcombined) (\<lambda>t_0.
      st_then (st_pure (index C_0 0)) (\<lambda>C_0_0.
      st_then (st_pure (index T 0)) (\<lambda>T_0.
      st_then (set_slice_st 0 (Some n1) (func_vec t_0 C_0_0 T_0 logA E_a dH dS) C_A_fit) (\<lambda>_.
      st_then (slice_st n1 (Some n2) tcombined) (\<lambda>t_1.
      st_then (st_pure (index C_0 1)) (\<lambda>C_0_1.
      st_then (st_pure (index T 1)) (\<lambda>T_1.
      st_then (set_slice_st n1 (Some n2) (func_vec t_1 C_0_1 T_1 logA E_a dH dS) C_A_fit) (\<lambda>_.
      st_then (slice_st n2 None tcombined) (\<lambda>t_2.
      st_then (st_pure (index C_0 2)) (\<lambda>C_0_2.
      st_then (st_pure (index T 2)) (\<lambda>T_2.
      st_then (set_slice_st n2 None (func_vec t_2 C_0_2 T_2 logA E_a dH dS) C_A_fit) (\<lambda>_.
      np_sub_st C_A C_A_fit)))))))))))))))))))"

text \<open>
  The fit, \<open>scipy.optimize.leastsq(leastsqfunc, parameters_0, args=arguments, full_output=1)\<close>.
  The routine \<open>leastsq\<close> belongs to a library outside the repository; it is a parameter
  here, a function of the residual function and the starting vector.
\<close>

definition fit :: "((real list \<Rightarrow> py_error + real list) \<Rightarrow> real list \<Rightarrow> 'r) \<Rightarrow> (nat \<Rightarrow> real) \<Rightarrow>
    real list \<Rightarrow> arguments \<Rightarrow> 'r" where
  "fit leastsq uninit parameters_0 arguments =
     leastsq (\<lambda>parameters. leastsqfunc uninit parameters arguments) parameters_0"

text \<open>Two small stores that hold the same data at different addresses, and two fillings
  of uninitialised memory.\<close>

definition store_A :: store where
  "store_A = \<lparr>arrays = (\<lambda>a. [])(0 := [10, 20, 30], 1 := [9, 8, 7]), lim = 2\<rparr>"

definition store_B :: store where
  "store_B = \<lparr>arrays = (\<lambda>a. [])(0 := [9, 8, 7], 1 := [1], 2 := [10, 20, 30]), lim = 3\<rparr>"

definition junk_A :: "nat \<Rightarrow> real" where
  "junk_A i = 0"

definition junk_B :: "nat \<Rightarrow> real" where
  "junk_B i = real i + 1"

text \<open>
  \<open>keeps n m\<close>: run from a store with at least \<open>n\<close> allocated addresses, the statement
  \<open>m\<close> leaves every array below \<open>n\<close> as it was.
\<close>

definition keeps :: "addr \<Rightarrow> 'a st \<Rightarrow> bool" where
  "keeps n m \<longleftrightarrow> (\<forall>h r h'. n \<le> lim h \<longrightarrow> m h = (r, h') \<longrightarrow>
      n \<le> lim h' \<and> (\<forall>a<n. arrays h' a = arrays h a))"

lemma keeps_then:
  assumes "keeps n m"
    and "\<And>x h h'. n \<le> lim h \<Longrightarrow> m h = (Inr x, h') \<Longrightarrow> keeps n (f x)"
  shows "keeps n (st_then m f)"
  unfolding keeps_def
proof (intro allI impI)
  fix h r h'
  assume n: "n \<le> lim h" and run: "st_then m f h = (r, h')"
  obtain r1 h1 where m: "m h = (r1, h1)" by (cases "m h")
  from assms(1) n m have k1: "n \<le> lim h1" "\<forall>a<n. arrays h1 a = arrays h a"
    by (auto simp: keeps_def)
  show "n \<le> lim h' \<and> (\<forall>a<n. arrays h' a = arrays h a)"
  proof (cases r1)
    case (Inl e)
    with run m k1 show ?thesis by (simp add: st_then_def)
  next
    case (Inr x)
    with run m have f: "f x h1 = (r, h')" by (simp add: st_then_def)
    from assms(2) [OF n] m Inr have "keeps n (f x)" by simp
    with k1(1) f have "n \<le> lim h'" "\<forall>a<n. arrays h' a = arrays h1 a"
      by (auto simp: keeps_def)
    with k1 show ?thesis by simp
  qed
qed

lemma keeps_pure [simp]: "keeps n (st_pure m)"
  by (simp add: keeps_def st_pure_def)

lemma keeps_shape [simp]: "keeps n (shape_st a)"
  by (simp add: keeps_def shape_st_def)

lemma keeps_slice [simp]: "keeps n (slice_st lo hi a)"
  by (simp add: keeps_def slice_st_def)

lemma keeps_np_empty [simp]: "keeps n (np_empty_st uninit k)"
  by (auto simp: keeps_def np_empty_st_def alloc_def)

lemma keeps_set_slice: "n \<le> a \<Longrightarrow> keeps n (set_slice_st lo hi v a)"
  by (auto simp: keeps_def set_slice_st_def put_def split: sum.splits)

lemma keeps_np_sub [simp]: "keeps n (np_sub_st a b)"
  by (auto simp: keeps_def np_sub_st_def alloc_def split: sum.splits)

lemma np_empty_st_fresh: "n \<le> lim h \<Longrightarrow> np_empty_st uninit k h = (Inr a, h') \<Longrightarrow> n \<le> a"
  by (auto simp: np_empty_st_def alloc_def)

lemma keeps_leastsqfunc_st: "keeps n (leastsqfunc_st uninit parameters arguments)"
  unfolding leastsqfunc_st_def
  by (auto split: prod.splits intro!: keeps_then keeps_set_slice dest: np_empty_st_fresh)


lemmas st_defs = st_then_def st_pure_def shape_st_def np_empty_st_def alloc_def slice_st_def
  set_slice_st_def put_def np_sub_st_def

lemma leastsqfunc_st_good:
  assumes "tcombined < lim h" and "C_A < lim h"
    and "4 \<le> length parameters" and "3 \<le> length C_0" and "3 \<le> length T"
    and run: "leastsqfunc_st uninit parameters (tcombined, C_A, C_0, T, bounds) h = (r, h')"
  shows "map_sum id (arrays h') r =
           leastsqfunc uninit parameters (arrays h tcombined, arrays h C_A, C_0, T, bounds)"
    and "\<forall>a. r = Inr a \<longrightarrow> lim h \<le> a \<and> a < lim h'"
proof -
  let ?tc = "arrays h tcombined"
  let ?f = "\<lambda>lo hi k. func_vec (slice lo hi ?tc) (C_0 ! k) (T ! k)
          (parameters ! 0) (parameters ! 1) (parameters ! 2) (parameters ! 3)"
  obtain u1 u2 where s:
    "set_slice 0 (Some n1) (?f 0 (Some n1) 0) (np_empty uninit (length ?tc)) = Inr u1"
    "set_slice n1 (Some n2) (?f n1 (Some n2) 1) u1 = Inr u2"
    "set_slice n2 None (?f n2 None 2) u2 = Inr (?f 0 (Some n1) 0 @ ?f n1 (Some n2) 1 @ ?f n2 None 2)"
    using three_assignments [of "?f 0 (Some n1) 0" ?tc "?f n1 (Some n2) 1" "?f n2 None 2"
        "np_empty uninit (length ?tc)"]
    by auto
  have ne: "parameters \<noteq> []" "C_0 \<noteq> []" "T \<noteq> []"
    using assms(3-5) by auto
  have v: "leastsqfunc uninit parameters (?tc, arrays h C_A, C_0, T, bounds) =
      np_sub (arrays h C_A) (?f 0 (Some n1) 0 @ ?f n1 (Some n2) 1 @ ?f n2 None 2)"
    by (rule leastsqfunc_slices [OF assms(3-5)])
  have "(r, h') =
     (case np_sub (arrays h C_A) (?f 0 (Some n1) 0 @ ?f n1 (Some n2) 1 @ ?f n2 None 2) of
        Inl e \<Rightarrow> (Inl e, h\<lparr>arrays := (arrays h)(lim h := ?f 0 (Some n1) 0 @ ?f n1 (Some n2) 1 @ ?f n2 None 2),
                          lim := lim h + 1\<rparr>)
      | Inr xs \<Rightarrow> (Inr (lim h + 1),
           h\<lparr>arrays := (arrays h)(lim h := ?f 0 (Some n1) 0 @ ?f n1 (Some n2) 1 @ ?f n2 None 2,
                                     lim h + 1 := xs),
             lim := lim h + 2\<rparr>))"
    using assms(1-5) ne s unfolding run [symmetric]
    by (simp add: leastsqfunc_st_def st_defs split: sum.splits)
  then show "map_sum id (arrays h') r =
           leastsqfunc uninit parameters (arrays h tcombined, arrays h C_A, C_0, T, bounds)"
    and "\<forall>a. r = Inr a \<longrightarrow> lim h \<le> a \<and> a < lim h'"
    unfolding v by (auto split: sum.splits)
qed


lemma leastsqfunc_st_IndexError:
  assumes "tcombined < lim h"
    and "length parameters < 4 \<or> length C_0 < 3 \<or> length T < 3"
  shows "fst (leastsqfunc_st uninit parameters (tcombined, C_A, C_0, T, bounds) h) = Inl IndexError"
proof -
  let ?tc = "arrays h tcombined"
  let ?f = "\<lambda>lo hi c T'. func_vec (slice lo hi ?tc) c T'
          (parameters ! 0) (parameters ! 1) (parameters ! 2) (parameters ! 3)"
  have ex: "\<exists>u1 u2. set_slice 0 (Some n1) (?f 0 (Some n1) a b) (np_empty uninit (length ?tc)) = Inr u1
           \<and> set_slice n1 (Some n2) (?f n1 (Some n2) c d) u1 = Inr u2" for a b c d
    using three_assignments [of "?f 0 (Some n1) a b" ?tc "?f n1 (Some n2) c d" "?f n2 None 0 0"
        "np_empty uninit (length ?tc)"]
    by auto
  show ?thesis
  proof (cases "length parameters < 4")
    case True
    then show ?thesis
      by (auto simp: leastsqfunc_st_def st_then_def st_pure_def index_def)
  next
    case False
    then have p: "4 \<le> length parameters" "parameters \<noteq> []" by auto
    from ex [of "C_0 ! 0" "T ! 0" "C_0 ! 1" "T ! 1"] obtain u1 u2 where
      s: "set_slice 0 (Some n1) (?f 0 (Some n1) (C_0 ! 0) (T ! 0)) (np_empty uninit (length ?tc)) = Inr u1"
      "set_slice n1 (Some n2) (?f n1 (Some n2) (C_0 ! 1) (T ! 1)) u1 = Inr u2"
      by auto
    from assms False have "length C_0 < 3 \<or> length T < 3" by simp
    then show ?thesis
      using p s assms(1) by (auto simp: leastsqfunc_st_def st_defs index_def)
  qed
qed

lemma leastsqfunc_st_value:
  assumes "tcombined < lim h" and "C_A < lim h"
    and run: "leastsqfunc_st uninit parameters (tcombined, C_A, C_0, T, bounds) h = (r, h')"
  shows "map_sum id (arrays h') r =
           leastsqfunc uninit parameters (arrays h tcombined, arrays h C_A, C_0, T, bounds)"
proof (cases "4 \<le> length parameters \<and> 3 \<le> length C_0 \<and> 3 \<le> length T")
  case True
  then show ?thesis
    using leastsqfunc_st_good(1) [OF assms(1,2) _ _ _ run] by simp
next
  case False
  then have b: "length parameters < 4 \<or> length C_0 < 3 \<or> length T < 3"
    by auto
  from leastsqfunc_st_IndexError [OF assms(1) b, of uninit C_A bounds] run
  have "r = Inl IndexError" by simp
  then show ?thesis
    using leastsqfunc_IndexError [OF b] by simp
qed

lemma leastsqfunc_uninit:
  "leastsqfunc uninit parameters arguments = leastsqfunc uninit' parameters arguments"
proof -
  obtain tcombined C_A C_0 T bounds where a: "arguments = (tcombined, C_A, C_0, T, bounds)"
    by (cases arguments)
  show ?thesis
  proof (cases "4 \<le> length parameters \<and> 3 \<le> length C_0 \<and> 3 \<le> length T")
    case True
    then show ?thesis
      unfolding a by (simp add: leastsqfunc_slices)
  next
    case False
    then have "length parameters < 4 \<or> length C_0 < 3 \<or> length T < 3"
      by auto
    then show ?thesis
      unfolding a by (simp add: leastsqfunc_IndexError)
  qed
qed

lemma leastsqfunc_bounds:
  "leastsqfunc uninit parameters (tcombined, C_A, C_0, T, bounds) =
   leastsqfunc uninit parameters (tcombined, C_A, C_0, T, bounds')"
  by (simp add: leastsqfunc_def)

text \<open>
  Claim C7. Take two invocations of the assembler with the same parameter vector and the
  same tuples, whose arrays \<open>tcombined\<close> and \<open>C_A\<close> hold the same data, possibly in two
  different stores, at different addresses, with different contents of uninitialised
  memory and different fifth arguments. Both raise the same exception or both return
  arrays with the same content. The invocation allocates and never frees, and every array
  allocated before it, the arguments and the experiment data among them, has the content
  it had. The fit over the same data is the same, the library routine being a function of
  the residual function and the starting vector.
\<close>

theorem leastsqfunc_deterministic_no_side_effect:
  assumes "tcombined < lim h" and "C_A < lim h"
    and "tcombined' < lim h'" and "C_A' < lim h'"
    and "arrays h' tcombined' = arrays h tcombined" and "arrays h' C_A' = arrays h C_A"
  shows "(case leastsqfunc_st uninit parameters (tcombined, C_A, C_0, T, bounds) h of (r, k) \<Rightarrow>
          case leastsqfunc_st uninit' parameters (tcombined', C_A', C_0, T, bounds') h' of (r', k') \<Rightarrow>
            map_sum id (arrays k') r' = map_sum id (arrays k) r
            \<and> lim h \<le> lim k \<and> (\<forall>a<lim h. arrays k a = arrays h a))
       \<and> fit leastsq uninit' parameters_0 (arrays h' tcombined', arrays h' C_A', C_0, T, bounds')
         = fit leastsq uninit parameters_0 (arrays h tcombined, arrays h C_A, C_0, T, bounds)"
proof -
  obtain r k where run: "leastsqfunc_st uninit parameters (tcombined, C_A, C_0, T, bounds) h = (r, k)"
    by (cases "leastsqfunc_st uninit parameters (tcombined, C_A, C_0, T, bounds) h")
  obtain r' k' where
    run': "leastsqfunc_st uninit' parameters (tcombined', C_A', C_0, T, bounds') h' = (r', k')"
    by (cases "leastsqfunc_st uninit' parameters (tcombined', C_A', C_0, T, bounds') h'")
  have "map_sum id (arrays k') r' =
      leastsqfunc uninit' parameters (arrays h tcombined, arrays h C_A, C_0, T, bounds')"
    using leastsqfunc_st_value [OF assms(3,4) run'] assms(5,6) by simp
  also have "\<dots> = leastsqfunc uninit parameters (arrays h tcombined, arrays h C_A, C_0, T, bounds)"
    using leastsqfunc_uninit leastsqfunc_bounds by metis
  also have "\<dots> = map_sum id (arrays k) r"
    using leastsqfunc_st_value [OF assms(1,2) run] by simp
  finally have 1: "map_sum id (arrays k') r' = map_sum id (arrays k) r" .
  have "keeps (lim h) (leastsqfunc_st uninit parameters (tcombined, C_A, C_0, T, bounds))"
    by (rule keeps_leastsqfunc_st)
  with run have 2: "lim h \<le> lim k" "\<forall>a<lim h. arrays k a = arrays h a"
    by (auto simp: keeps_def)
  have "(\<lambda>p. leastsqfunc uninit' p (arrays h tcombined, arrays h C_A, C_0, T, bounds'))
      = (\<lambda>p. leastsqfunc uninit p (arrays h tcombined, arrays h C_A, C_0, T, bounds))"
    using leastsqfunc_uninit leastsqfunc_bounds by metis
  then have 3: "fit leastsq uninit' parameters_0 (arrays h' tcombined', arrays h' C_A', C_0, T, bounds')
         = fit leastsq uninit parameters_0 (arrays h tcombined, arrays h C_A, C_0, T, bounds)"
    by (simp add: fit_def assms(5,6))
  show ?thesis
    using 1 2 3 by (simp add: run run')
qed

theorem leastsqfunc_deterministic_no_side_effect_witness:
  "0 < lim store_A \<and> 1 < lim store_A \<and> 2 < lim store_B \<and> 0 < lim store_B
   \<and> arrays store_B 2 = arrays store_A 0 \<and> arrays store_B 0 = arrays store_A 1
   \<and> map_sum id
        (arrays (snd (leastsqfunc_st junk_B [6, 45000, - 10000, - 50]
           (2, 0, [10, 10, 10], [298.15, 308.15, 323.15], (0, 0)) store_B)))
        (fst (leastsqfunc_st junk_B [6, 45000, - 10000, - 50]
           (2, 0, [10, 10, 10], [298.15, 308.15, 323.15], (0, 0)) store_B))
     = map_sum id
        (arrays (snd (leastsqfunc_st junk_A [6, 45000, - 10000, - 50]
           (0, 1, [10, 10, 10], [298.15, 308.15, 323.15], (10, 30)) store_A)))
        (fst (leastsqfunc_st junk_A [6, 45000, - 10000, - 50]
           (0, 1, [10, 10, 10], [298.15, 308.15, 323.15], (10, 30)) store_A))
   \<and> arrays (snd (leastsqfunc_st junk_A [6, 45000, - 10000, - 50]
           (0, 1, [10, 10, 10], [298.15, 308.15, 323.15], (10, 30)) store_A)) 0 = [10, 20, 30]
   \<and> arrays (snd (leastsqfunc_st junk_A [6, 45000, - 10000, - 50]
           (0, 1, [10, 10, 10], [298.15, 308.15, 323.15], (10, 30)) store_A)) 1 = [9, 8, 7]"
proof -
  let ?A = "leastsqfunc_st junk_A [6, 45000, - 10000, - 50]
           (0, 1, [10, 10, 10], [298.15, 308.15, 323.15], (10, 30)) store_A"
  let ?B = "leastsqfunc_st junk_B [6, 45000, - 10000, - 50]
           (2, 0, [10, 10, 10], [298.15, 308.15, 323.15], (0, 0)) store_B"
  have a: "0 < lim store_A" "1 < lim store_A" "2 < lim store_B" "0 < lim store_B"
    "arrays store_B 2 = arrays store_A 0" "arrays store_B 0 = arrays store_A 1"
    by (simp_all add: store_A_def store_B_def)
  have c: "arrays store_A 0 = [10, 20, 30]" "arrays store_A 1 = [9, 8, 7]"
    by (simp_all add: store_A_def)
  from leastsqfunc_deterministic_no_side_effect [OF a, of junk_B "[6, 45000, - 10000, - 50]"
      "[10, 10, 10]" "[298.15, 308.15, 323.15]" "(0, 0)" junk_A "(10, 30)"]
  have "map_sum id (arrays (snd ?B)) (fst ?B) = map_sum id (arrays (snd ?A)) (fst ?A)"
    and "\<forall>a<lim store_A. arrays (snd ?A) a = arrays store_A a"
    by (simp_all only: split_beta) blast+
  with a(1,2) c have "map_sum id (arrays (snd ?B)) (fst ?B) = map_sum id (arrays (snd ?A)) (fst ?A)"
    and "arrays (snd ?A) 0 = [10, 20, 30]" and "arrays (snd ?A) 1 = [9, 8, 7]"
    by metis+
  with a show ?thesis
    by blast
qed

section \<open>Experiment records and the notebook's data\<close>

text \<open>
  \<^verbatim>\<open>ExperimentData = namedtuple('ExperimentData', ['T', 'cA_start', 'times', 'cA'])\<close>
  A named tuple: its fields cannot be rebound after construction, and the constructor
  checks nothing. The field \<open>times\<close> is \<open>times'\<close> here. The arrays are written by their
  contents; where their identity matters the record holds their addresses in a store, see
  \<open>deref\<close> below.
\<close>

record ExperimentData =
  T :: real
  cA_start :: real
  times' :: "real list"
  cA :: "real list"

text \<open>The three experiments of the notebook.\<close>

definition experiments :: "ExperimentData list" where
  "experiments =
     [\<lparr>T = 298.15, cA_start = 10.0,
       times' = [10, 20, 30, 40, 50, 60, 70, 80, 90, 100],
       cA = [8.649, 7.441, 7.141, 6.366, 6.215, 5.990, 5.852, 5.615, 5.481, 5.644]\<rparr>,
      \<lparr>T = 308.15, cA_start = 10.0,
       times' = [10, 20, 30, 40, 50, 60, 70, 80, 90, 100],
       cA = [7.230, 6.073, 5.452, 5.317, 5.121, 4.998, 4.951, 4.978, 5.015, 5.036]\<rparr>,
      \<lparr>T = 323.15, cA_start = 10.0,
       times' = [10, 20, 30, 40, 50, 60, 70, 80, 90, 100],
       cA = [5.137, 4.568, 4.548, 4.461, 4.382, 4.525, 4.483, 4.565, 4.459, 4.635]\<rparr>]"

text \<open>
  What the notebook passes to the solver. It does not compute these from \<open>experiments\<close>:
  the times are built with \<open>np.arange(10, 110, 10)\<close>, repeated three times, and the
  thirty observations are typed in again.
  \<^verbatim>\<open>
  t = np.arange (10, 110, 10)
  tcombined = np.concatenate((t, t, t), axis = 0)
  C_A = array ([8.649, 7.441, ..., 4.635])
  parameters_0 = [6, 45e3, -10e3, -50]
  arguments = (tcombined, C_A, (10, 10, 10), (298.15, 308.15, 323.15), (n1, n1+n2))
  \<close>
\<close>

definition tcombined :: "real list" where
  "tcombined = (let t = map (\<lambda>i. 10 + 10 * real i) [0..<10] in t @ t @ t)"

definition C_A :: "real list" where
  "C_A = [8.649, 7.441, 7.141, 6.366, 6.215, 5.99, 5.852, 5.615, 5.481, 5.644,
          7.23, 6.073, 5.452, 5.317, 5.121, 4.998, 4.951, 4.978, 5.015, 5.036,
          5.137, 4.568, 4.548, 4.461, 4.382, 4.525, 4.483, 4.565, 4.459, 4.635]"

definition parameters_0 :: "real list" where
  "parameters_0 = [6, 45000, - 10000, - 50]"

definition arguments :: arguments where
  "arguments = (tcombined, C_A, [10, 10, 10], [298.15, 308.15, 323.15], (n1, n1 + n2))"

text \<open>
  The argument tuple that belongs to a sequence of experiments, built the way the notebook
  built its own: times and observations concatenated in order, one initial concentration
  and one temperature per experiment.
\<close>

definition arguments_of :: "ExperimentData list \<Rightarrow> arguments" where
  "arguments_of es =
     (concat (map times' es), concat (map cA es), map cA_start es, map T es, (n1, n1 + n2))"

text \<open>
  The residual vector as the specification describes it: for each experiment in order,
  and each of its observations in order, the observed concentration minus the prediction
  of the model at the matching time.
\<close>

definition residuals_spec :: "real \<times> real \<times> real \<times> real \<Rightarrow> ExperimentData list \<Rightarrow> real list" where
  "residuals_spec params es =
     (case params of (log10_A, Ea, dH, dS) \<Rightarrow>
        concat (map (\<lambda>e. map2 (\<lambda>c t. c - func t (cA_start e) (T e) log10_A Ea dH dS)
                            (cA e) (times' e)) es))"

text \<open>
  What a run of the solver does to the store: it evaluates the assembler at one trial
  parameter vector after another. The arrays the assembler returns are kept allocated.
\<close>

fun solver_calls :: "(nat \<Rightarrow> real) \<Rightarrow> real list list \<Rightarrow> arguments_st \<Rightarrow> store \<Rightarrow> store" where
  "solver_calls uninit [] args h = h"
| "solver_calls uninit (p # ps) args h =
     solver_calls uninit ps args (snd (leastsqfunc_st uninit p args h))"

text \<open>
  An experiment record as the interpreter holds it: a tuple of two floats and the
  addresses of the arrays \<open>times\<close> and \<open>cA\<close>. The tuple cannot be changed; the arrays it
  points to could be, by any statement that assigns into them. \<open>deref\<close> reads the record's
  value off the store.
\<close>

type_synonym ExperimentData_ref = "real \<times> real \<times> addr \<times> addr"

definition deref :: "store \<Rightarrow> ExperimentData_ref \<Rightarrow> ExperimentData" where
  "deref h r =
     (case r of (T_r, cA_start_r, a_times, a_cA) \<Rightarrow>
        \<lparr>T = T_r, cA_start = cA_start_r, times' = arrays h a_times, cA = arrays h a_cA\<rparr>)"

text \<open>
  \<^verbatim>\<open>ExperimentData(T=..., cA_start=..., times=array([...]), cA=array([...]))\<close>
  Each \<open>array(...)\<close> allocates a new array; the constructor stores what it is given and
  compares nothing.
\<close>

definition new_ExperimentData :: "ExperimentData \<Rightarrow> store \<Rightarrow> ExperimentData_ref \<times> store" where
  "new_ExperimentData e h =
     (case alloc (times' e) h of (a_times, h1) \<Rightarrow>
      case alloc (cA e) h1 of (a_cA, h2) \<Rightarrow>
        ((T e, cA_start e, a_times, a_cA), h2))"

fun new_experiments :: "ExperimentData list \<Rightarrow> store \<Rightarrow> ExperimentData_ref list \<times> store" where
  "new_experiments [] h = ([], h)"
| "new_experiments (e # es) h =
     (case new_ExperimentData e h of (r, h1) \<Rightarrow>
      case new_experiments es h1 of (rs, h2) \<Rightarrow> (r # rs, h2))"

text \<open>
  The cell that constructs \<open>experiments\<close>. Its loop over the records prints and plots
  them, which reads the arrays and writes none.
\<close>

definition cell_6 :: "store \<Rightarrow> ExperimentData_ref list \<times> store" where
  "cell_6 h = new_experiments experiments h"

text \<open>
  The cell of the fit. It builds \<open>t\<close>, \<open>tcombined\<close> and \<open>C_A\<close> as new arrays (the arrays
  of the records are not used), and the solver then evaluates \<open>leastsqfunc\<close> on them at
  the trial vectors of its choice. The plots at the end of the cell read slices of
  \<open>C_A\<close> and call \<open>func\<close>, which allocates its results. The cells after it assign into no
  array.
\<close>

definition cell_9 :: "(nat \<Rightarrow> real) \<Rightarrow> real list list \<Rightarrow> store \<Rightarrow> store" where
  "cell_9 uninit trials h =
     (case alloc (map (\<lambda>i. 10 + 10 * real i) [0..<10]) h of (t, h1) \<Rightarrow>
      case alloc (arrays h1 t @ arrays h1 t @ arrays h1 t) h1 of (a_tcombined, h2) \<Rightarrow>
      case alloc C_A h2 of (a_C_A, h3) \<Rightarrow>
        solver_calls uninit trials
          (a_tcombined, a_C_A, [10, 10, 10], [298.15, 308.15, 323.15], (n1, n1 + n2)) h3)"

text \<open>The arrays of a record are among the allocated ones.\<close>

definition allocated :: "store \<Rightarrow> ExperimentData_ref \<Rightarrow> bool" where
  "allocated h r = (case r of (T_r, cA_start_r, a_times, a_cA) \<Rightarrow> a_times < lim h \<and> a_cA < lim h)"

lemma arguments_of_experiments: "arguments_of experiments = arguments"
  by (simp add: arguments_of_def experiments_def arguments_def tcombined_def C_A_def upt_rec)

lemma slice_upto_append [simp]: "length xs = k \<Longrightarrow> slice 0 (Some k) (xs @ ys) = xs"
  by (simp add: slice_def)

lemma slice_mid_append [simp]:
  "length xs = lo \<Longrightarrow> length ys = hi - lo \<Longrightarrow> slice lo (Some hi) (xs @ ys @ zs) = ys"
  by (simp add: slice_def)

lemma slice_from_append [simp]:
  "length xs + length ys = lo \<Longrightarrow> slice lo None (xs @ ys @ zs) = zs"
  by (simp add: slice_def)

lemma map2_sub_func_vec:
  "map2 (-) c (func_vec t C_0 Tk a b d e) = map2 (\<lambda>c t. c - func t C_0 Tk a b d e) c t"
  by (simp add: func_vec_def zip_map2 case_prod_unfold)

lemma leastsqfunc_layout:
  assumes "length (times' e0) = 10" and "length (times' e1) = 10"
    and "length (cA e0) = 10" and "length (cA e1) = 10"
    and "length (cA e2) = length (times' e2)"
  shows "leastsqfunc uninit [a, b, c, d] (arguments_of [e0, e1, e2]) =
           Inr (residuals_spec (a, b, c, d) [e0, e1, e2])"
proof -
  have "leastsqfunc uninit [a, b, c, d] (arguments_of [e0, e1, e2]) =
      np_sub (cA e0 @ cA e1 @ cA e2)
        (func_vec (times' e0) (cA_start e0) (T e0) a b c d
         @ func_vec (times' e1) (cA_start e1) (T e1) a b c d
         @ func_vec (times' e2) (cA_start e2) (T e2) a b c d)"
    unfolding arguments_of_def
    by (subst leastsqfunc_slices) (simp_all add: assms n1_def n2_def)
  also have "\<dots> = Inr (residuals_spec (a, b, c, d) [e0, e1, e2])"
    by (simp add: np_sub_def assms residuals_spec_def map2_sub_func_vec)
  finally show ?thesis .
qed

lemma length_3E:
  assumes "length es = 3"
  obtains e0 e1 e2 where "es = [e0, e1, e2]"
  using assms by (auto simp: length_Suc_conv numeral_3_eq_3)

lemma nth_concat_slot:
  "k < length xss \<Longrightarrow> i < length (xss ! k) \<Longrightarrow>
     concat xss ! (sum_list (map length (take k xss)) + i) = xss ! k ! i"
proof (induction xss arbitrary: k)
  case Nil
  then show ?case by simp
next
  case (Cons xs xss)
  show ?case
  proof (cases k)
    case 0
    with Cons.prems show ?thesis by (simp add: nth_append)
  next
    case (Suc j)
    with Cons.prems Cons.IH [of j] show ?thesis
      by (simp add: nth_append add.assoc)
  qed
qed

lemma length_residuals_spec:
  assumes "map (\<lambda>e. length (cA e)) es = map (\<lambda>e. length (times' e)) es"
  shows "length (residuals_spec (a, b, c, d) es) = sum_list (map (\<lambda>e. length (cA e)) es)"
  using assms by (induction es) (simp_all add: residuals_spec_def)

lemma nth_residuals_spec:
  assumes "map (\<lambda>e. length (cA e)) es = map (\<lambda>e. length (times' e)) es"
    and "k < length es" and "i < length (cA (es ! k))"
  shows "residuals_spec (a, b, c, d) es ! (sum_list (map (\<lambda>e. length (cA e)) (take k es)) + i) =
     cA (es ! k) ! i - func (times' (es ! k) ! i) (cA_start (es ! k)) (T (es ! k)) a b c d"
proof -
  let ?row = "\<lambda>e. map2 (\<lambda>obs tm. obs - func tm (cA_start e) (T e) a b c d) (cA e) (times' e)"
  have len: "length (cA e) = length (times' e)" if "e \<in> set es" for e
    using assms(1) that by (induction es) auto
  have l: "map length (take k (map ?row es)) = map (\<lambda>e. length (cA e)) (take k es)"
    using len by (auto simp: take_map dest: in_set_takeD)
  have k: "es ! k \<in> set es"
    using assms(2) by simp
  have "concat (map ?row es) ! (sum_list (map length (take k (map ?row es))) + i) = map ?row es ! k ! i"
    using assms(2,3) len [OF k] by (intro nth_concat_slot) simp_all
  then show ?thesis
    using assms(2,3) len [OF k] by (simp add: residuals_spec_def l)
qed

lemma func_at_zero_parameters: "func 1 c 1 0 0 0 0 = c / 2 + c / 2 * exp (- 2)"
  by (simp add: func_def Let_def)

lemma solver_calls_keeps:
  "lim h \<le> lim (solver_calls uninit ps args h)
   \<and> (\<forall>a<lim h. arrays (solver_calls uninit ps args h) a = arrays h a)"
proof (induction ps arbitrary: h)
  case Nil
  show ?case by simp
next
  case (Cons p ps)
  let ?h1 = "snd (leastsqfunc_st uninit p args h)"
  have "keeps (lim h) (leastsqfunc_st uninit p args)"
    by (rule keeps_leastsqfunc_st)
  then have 1: "lim h \<le> lim ?h1" "\<forall>a<lim h. arrays ?h1 a = arrays h a"
    unfolding keeps_def by (metis order_refl prod.collapse)+
  from Cons.IH [of ?h1] 1 show ?case
    by auto
qed

text \<open>
  Claim C3, as the code has it. For every candidate parameter vector and every sequence of
  exactly three experiments, each with as many observations as times, of which the first
  two have exactly ten observations, the assembler returns the residual vector of the
  specification: its length is the sum of the observation counts, and the entry at
  position \<open>i\<close> of the slot of experiment \<open>k\<close> is that experiment's observed concentration
  minus the model's prediction at the matching time, experiments in input order.
\<close>

theorem leastsqfunc_three_experiments:
  assumes "length es = 3"
    and "length (times' (es ! 0)) = 10" and "length (times' (es ! 1)) = 10"
    and "map (\<lambda>e. length (cA e)) es = map (\<lambda>e. length (times' e)) es"
  shows "leastsqfunc uninit [logA, Ea, dH, dS] (arguments_of es) =
           Inr (residuals_spec (logA, Ea, dH, dS) es)
       \<and> length (residuals_spec (logA, Ea, dH, dS) es) = sum_list (map (\<lambda>e. length (cA e)) es)
       \<and> (\<forall>k<length es. \<forall>i<length (cA (es ! k)).
            residuals_spec (logA, Ea, dH, dS) es ! (sum_list (map (\<lambda>e. length (cA e)) (take k es)) + i) =
            cA (es ! k) ! i
              - func (times' (es ! k) ! i) (cA_start (es ! k)) (T (es ! k)) logA Ea dH dS)"
proof (intro conjI allI impI)
  from assms(1) obtain e0 e1 e2 where es: "es = [e0, e1, e2]"
    by (rule length_3E)
  with assms(2-4) show "leastsqfunc uninit [logA, Ea, dH, dS] (arguments_of es) =
           Inr (residuals_spec (logA, Ea, dH, dS) es)"
    by (simp add: leastsqfunc_layout)
  show "length (residuals_spec (logA, Ea, dH, dS) es) = sum_list (map (\<lambda>e. length (cA e)) es)"
    by (rule length_residuals_spec [OF assms(4)])
next
  fix k i
  assume "k < length es" and "i < length (cA (es ! k))"
  then show "residuals_spec (logA, Ea, dH, dS) es ! (sum_list (map (\<lambda>e. length (cA e)) (take k es)) + i) =
            cA (es ! k) ! i
              - func (times' (es ! k) ! i) (cA_start (es ! k)) (T (es ! k)) logA Ea dH dS"
    by (rule nth_residuals_spec [OF assms(4)])
qed


theorem leastsqfunc_three_experiments_witness:
  "length experiments = 3
   \<and> length (times' (experiments ! 0)) = 10 \<and> length (times' (experiments ! 1)) = 10
   \<and> map (\<lambda>e. length (cA e)) experiments = map (\<lambda>e. length (times' e)) experiments
   \<and> leastsqfunc junk_A parameters_0 arguments =
       Inr (residuals_spec (6, 45000, - 10000, - 50) experiments)
   \<and> length (residuals_spec (6, 45000, - 10000, - 50) experiments) = 30
   \<and> residuals_spec (6, 45000, - 10000, - 50) experiments ! 10 =
       7.230 - func 10 10 308.15 6 45000 (- 10000) (- 50)"
proof -
  have h: "length experiments = 3"
    "length (times' (experiments ! 0)) = 10" "length (times' (experiments ! 1)) = 10"
    "map (\<lambda>e. length (cA e)) experiments = map (\<lambda>e. length (times' e)) experiments"
    by (simp_all add: experiments_def)
  note t = leastsqfunc_three_experiments [OF h, of junk_A 6 45000 "- 10000" "- 50"]
  from t have 1: "leastsqfunc junk_A parameters_0 arguments =
       Inr (residuals_spec (6, 45000, - 10000, - 50) experiments)"
    by (simp add: arguments_of_experiments parameters_0_def)
  from t have 2: "length (residuals_spec (6, 45000, - 10000, - 50) experiments) = 30"
    by (simp add: experiments_def)
  have "1 < length experiments" and "0 < length (cA (experiments ! 1))"
    by (simp_all add: experiments_def)
  note t3 = t [THEN conjunct2, THEN conjunct2, rule_format, OF this]
  have v: "sum_list (map (\<lambda>e. length (cA e)) (take 1 experiments)) + 0 = 10"
    "cA (experiments ! 1) ! 0 = 7.230" "times' (experiments ! 1) ! 0 = 10"
    "cA_start (experiments ! 1) = 10" "T (experiments ! 1) = 308.15"
    by (simp_all add: experiments_def)
  have 3: "residuals_spec (6, 45000, - 10000, - 50) experiments ! 10 =
       7.230 - func 10 10 308.15 6 45000 (- 10000) (- 50)"
    using t3 unfolding v .
  show ?thesis
    using h 1 2 3 by simp
qed

text \<open>
  Claim C3 as stated fails. For a single experiment the assembler raises IndexError at
  \<open>C_0[1]\<close> and returns no vector. For three experiments of one observation each, with
  initial concentrations 1, 2 and 3, the first slice \<open>[:n1]\<close> covers all three
  observations, so all three are predicted from the first experiment's initial
  concentration: the second entry differs from the specified residual.
\<close>

theorem leastsqfunc_other_layouts_fail:
  "leastsqfunc junk_A [6, 45000, - 10000, - 50]
      (arguments_of [\<lparr>T = 298.15, cA_start = 10, times' = [10, 20], cA = [8.649, 7.441]\<rparr>])
     = Inl IndexError
   \<and> leastsqfunc junk_A [0, 0, 0, 0]
      (arguments_of [\<lparr>T = 1, cA_start = 1, times' = [1], cA = [1]\<rparr>,
                     \<lparr>T = 1, cA_start = 2, times' = [1], cA = [1]\<rparr>,
                     \<lparr>T = 1, cA_start = 3, times' = [1], cA = [1]\<rparr>])
     \<noteq> Inr (residuals_spec (0, 0, 0, 0)
                    [\<lparr>T = 1, cA_start = 1, times' = [1], cA = [1]\<rparr>,
                     \<lparr>T = 1, cA_start = 2, times' = [1], cA = [1]\<rparr>,
                     \<lparr>T = 1, cA_start = 3, times' = [1], cA = [1]\<rparr>])"
proof
  show "leastsqfunc junk_A [6, 45000, - 10000, - 50]
      (arguments_of [\<lparr>T = 298.15, cA_start = 10, times' = [10, 20], cA = [8.649, 7.441]\<rparr>])
     = Inl IndexError"
    by (simp add: arguments_of_def leastsqfunc_IndexError)
next
  let ?es = "[\<lparr>T = 1, cA_start = 1, times' = [1], cA = [1]\<rparr>,
             \<lparr>T = 1, cA_start = 2, times' = [1], cA = [1]\<rparr>,
             \<lparr>T = 1, cA_start = 3, times' = [1::real], cA = [1::real]\<rparr>]"
  have "leastsqfunc junk_A [0, 0, 0, 0] (arguments_of ?es) =
      np_sub [1, 1, 1] (func_vec [1, 1, 1] 1 1 0 0 0 0 @ func_vec [] 2 1 0 0 0 0 @ func_vec [] 3 1 0 0 0 0)"
    unfolding arguments_of_def
    by (subst leastsqfunc_slices) (simp_all add: n1_def n2_def slice_def)
  also have "\<dots> = Inr [1 - func 1 1 1 0 0 0 0, 1 - func 1 1 1 0 0 0 0, 1 - func 1 1 1 0 0 0 0]"
    by (simp add: np_sub_def func_vec_def)
  finally have l: "leastsqfunc junk_A [0, 0, 0, 0] (arguments_of ?es) =
      Inr [1 - func 1 1 1 0 0 0 0, 1 - func 1 1 1 0 0 0 0, 1 - func 1 1 1 0 0 0 0]" .
  have r: "residuals_spec (0, 0, 0, 0) ?es =
      [1 - func 1 1 1 0 0 0 0, 1 - func 1 2 1 0 0 0 0, 1 - func 1 3 1 0 0 0 0]"
    by (simp add: residuals_spec_def)
  have "func 1 1 1 0 0 0 0 \<noteq> func 1 2 1 0 0 0 0"
  proof -
    have "0 < (1::real) / 2 + 1 / 2 * exp (- 2)"
      by (intro add_pos_pos mult_pos_pos) simp_all
    then show ?thesis
      unfolding func_at_zero_parameters by simp
  qed
  then show "leastsqfunc junk_A [0, 0, 0, 0] (arguments_of ?es) \<noteq> Inr (residuals_spec (0, 0, 0, 0) ?es)"
    unfolding l r by simp
qed


text \<open>
  Claim C9, as the code has it. The fifth argument is never read. The fitted vector is
  assembled from the three slices \<open>[0, 10)\<close>, \<open>[10, 20)\<close> and \<open>[20, len)\<close> of the combined
  times, fixed by \<open>n1 = 10\<close> and \<open>n2 = 20\<close> and not by the experiments, each predicted with
  the initial concentration and temperature at index 0, 1 and 2. The residuals are
  therefore the specified ones for three experiments of which the first two have exactly
  ten observations, whatever the number of observations of the third; with fewer than
  three experiments the assembler raises IndexError.
\<close>

theorem leastsqfunc_fixed_slices:
  "leastsqfunc uninit ps (tc, ca, C0s, Ts, b) = leastsqfunc uninit ps (tc, ca, C0s, Ts, b')
   \<and> (4 \<le> length ps \<and> 3 \<le> length C0s \<and> 3 \<le> length Ts \<longrightarrow>
        leastsqfunc uninit ps (tc, ca, C0s, Ts, b) =
          np_sub ca
            (func_vec (slice 0 (Some 10) tc) (C0s ! 0) (Ts ! 0) (ps ! 0) (ps ! 1) (ps ! 2) (ps ! 3)
             @ func_vec (slice 10 (Some 20) tc) (C0s ! 1) (Ts ! 1) (ps ! 0) (ps ! 1) (ps ! 2) (ps ! 3)
             @ func_vec (slice 20 None tc) (C0s ! 2) (Ts ! 2) (ps ! 0) (ps ! 1) (ps ! 2) (ps ! 3)))
   \<and> (length es = 3 \<and> length (times' (es ! 0)) = 10 \<and> length (times' (es ! 1)) = 10
        \<and> map (\<lambda>e. length (cA e)) es = map (\<lambda>e. length (times' e)) es \<longrightarrow>
        leastsqfunc uninit [p0, p1, p2, p3] (arguments_of es) =
          Inr (residuals_spec (p0, p1, p2, p3) es))
   \<and> (length es' < 3 \<longrightarrow> leastsqfunc uninit ps (arguments_of es') = Inl IndexError)"
proof (intro conjI impI)
  show "leastsqfunc uninit ps (tc, ca, C0s, Ts, b) = leastsqfunc uninit ps (tc, ca, C0s, Ts, b')"
    by (rule leastsqfunc_bounds)
next
  assume "4 \<le> length ps \<and> 3 \<le> length C0s \<and> 3 \<le> length Ts"
  then show "leastsqfunc uninit ps (tc, ca, C0s, Ts, b) =
          np_sub ca
            (func_vec (slice 0 (Some 10) tc) (C0s ! 0) (Ts ! 0) (ps ! 0) (ps ! 1) (ps ! 2) (ps ! 3)
             @ func_vec (slice 10 (Some 20) tc) (C0s ! 1) (Ts ! 1) (ps ! 0) (ps ! 1) (ps ! 2) (ps ! 3)
             @ func_vec (slice 20 None tc) (C0s ! 2) (Ts ! 2) (ps ! 0) (ps ! 1) (ps ! 2) (ps ! 3))"
    using leastsqfunc_slices [of ps C0s Ts uninit tc ca b] by (simp add: n1_def n2_def)
next
  assume a: "length es = 3 \<and> length (times' (es ! 0)) = 10 \<and> length (times' (es ! 1)) = 10
        \<and> map (\<lambda>e. length (cA e)) es = map (\<lambda>e. length (times' e)) es"
  then obtain e0 e1 e2 where "es = [e0, e1, e2]"
    by (auto elim: length_3E)
  with a show "leastsqfunc uninit [p0, p1, p2, p3] (arguments_of es) =
          Inr (residuals_spec (p0, p1, p2, p3) es)"
    by (simp add: leastsqfunc_layout)
next
  assume "length es' < 3"
  then show "leastsqfunc uninit ps (arguments_of es') = Inl IndexError"
    unfolding arguments_of_def by (intro leastsqfunc_IndexError) simp
qed

theorem leastsqfunc_fixed_slices_witness:
  "4 \<le> length parameters_0 \<and> 3 \<le> length [10, 10, 10 :: real]
   \<and> 3 \<le> length [298.15, 308.15, 323.15 :: real]
   \<and> length experiments = 3
   \<and> length (times' (experiments ! 0)) = 10 \<and> length (times' (experiments ! 1)) = 10
   \<and> map (\<lambda>e. length (cA e)) experiments = map (\<lambda>e. length (times' e)) experiments
   \<and> length (take 2 experiments) < 3
   \<and> leastsqfunc junk_A parameters_0 arguments =
       leastsqfunc junk_A parameters_0 (tcombined, C_A, [10, 10, 10], [298.15, 308.15, 323.15], (0, 0))
   \<and> leastsqfunc junk_A parameters_0 arguments =
       np_sub C_A
         (func_vec (slice 0 (Some 10) tcombined) 10 298.15 6 45000 (- 10000) (- 50)
          @ func_vec (slice 10 (Some 20) tcombined) 10 308.15 6 45000 (- 10000) (- 50)
          @ func_vec (slice 20 None tcombined) 10 323.15 6 45000 (- 10000) (- 50))
   \<and> leastsqfunc junk_A parameters_0 arguments =
       Inr (residuals_spec (6, 45000, - 10000, - 50) experiments)
   \<and> leastsqfunc junk_A parameters_0 (arguments_of (take 2 experiments)) = Inl IndexError"
proof -
  have h1: "4 \<le> length parameters_0 \<and> 3 \<le> length [10, 10, 10 :: real]
       \<and> 3 \<le> length [298.15, 308.15, 323.15 :: real]"
    by (simp add: parameters_0_def)
  have h2: "length experiments = 3
       \<and> length (times' (experiments ! 0)) = 10 \<and> length (times' (experiments ! 1)) = 10
       \<and> map (\<lambda>e. length (cA e)) experiments = map (\<lambda>e. length (times' e)) experiments"
    by (simp add: experiments_def)
  have h3: "length (take 2 experiments) < 3"
    by simp
  note t = leastsqfunc_fixed_slices [of junk_A parameters_0 tcombined C_A "[10, 10, 10]"
      "[298.15, 308.15, 323.15]" "(n1, n1 + n2)" "(0, 0)" experiments 6 45000 "- 10000" "- 50"
      "take 2 experiments"]
  have a: "arguments = (tcombined, C_A, [10, 10, 10], [298.15, 308.15, 323.15], (n1, n1 + n2))"
    by (simp add: arguments_def)
  have p: "parameters_0 ! 0 = 6" "parameters_0 ! 1 = 45000" "parameters_0 ! 2 = - 10000"
    "parameters_0 ! 3 = - 50" "parameters_0 = [6, 45000, - 10000, - 50]"
    by (simp_all add: parameters_0_def)
  from t have 1: "leastsqfunc junk_A parameters_0 arguments =
       leastsqfunc junk_A parameters_0 (tcombined, C_A, [10, 10, 10], [298.15, 308.15, 323.15], (0, 0))"
    unfolding a by (rule conjunct1)
  from t [THEN conjunct2, THEN conjunct1, rule_format, OF h1]
  have 2: "leastsqfunc junk_A parameters_0 arguments =
       np_sub C_A
         (func_vec (slice 0 (Some 10) tcombined) 10 298.15 6 45000 (- 10000) (- 50)
          @ func_vec (slice 10 (Some 20) tcombined) 10 308.15 6 45000 (- 10000) (- 50)
          @ func_vec (slice 20 None tcombined) 10 323.15 6 45000 (- 10000) (- 50))"
    unfolding a p(1-4) by simp
  from t [THEN conjunct2, THEN conjunct2, THEN conjunct1, rule_format, OF h2]
  have 3: "leastsqfunc junk_A parameters_0 arguments =
       Inr (residuals_spec (6, 45000, - 10000, - 50) experiments)"
    by (simp add: arguments_of_experiments p(5))
  from t [THEN conjunct2, THEN conjunct2, THEN conjunct2, rule_format, OF h3]
  have 4: "leastsqfunc junk_A parameters_0 (arguments_of (take 2 experiments)) = Inl IndexError" .
  show ?thesis
    using h1 h2 h3 1 2 3 4 by blast
qed

text \<open>
  Claim C9 as stated fails: the last slice is \<open>[n2:]\<close>, open at the end, not \<open>[20, 30)\<close>.
  With the first two experiments of the notebook and a third experiment of five
  observations, twenty-five observations in all, the assembler returns exactly the
  specified residuals.
\<close>

theorem leastsqfunc_short_third_experiment:
  "leastsqfunc junk_A parameters_0
     (arguments_of (take 2 experiments @
        [\<lparr>T = 323.15, cA_start = 10.0, times' = [10, 20, 30, 40, 50],
          cA = [5.137, 4.568, 4.548, 4.461, 4.382]\<rparr>]))
   = Inr (residuals_spec (6, 45000, - 10000, - 50)
       (take 2 experiments @
        [\<lparr>T = 323.15, cA_start = 10.0, times' = [10, 20, 30, 40, 50],
          cA = [5.137, 4.568, 4.548, 4.461, 4.382]\<rparr>]))
   \<and> length (residuals_spec (6, 45000, - 10000, - 50)
       (take 2 experiments @
        [\<lparr>T = 323.15, cA_start = 10.0, times' = [10, 20, 30, 40, 50],
          cA = [5.137, 4.568, 4.548, 4.461, 4.382]\<rparr>])) = 25"
proof -
  let ?e2 = "\<lparr>T = 323.15, cA_start = 10.0, times' = [10, 20, 30, 40, 50],
          cA = [5.137, 4.568, 4.548, 4.461, 4.382 :: real]\<rparr>"
  have es: "take 2 experiments @ [?e2] = [experiments ! 0, experiments ! 1, ?e2]"
    by (simp add: experiments_def)
  have l: "length (times' (experiments ! 0)) = 10" "length (times' (experiments ! 1)) = 10"
    "length (cA (experiments ! 0)) = 10" "length (cA (experiments ! 1)) = 10"
    "length (cA ?e2) = length (times' ?e2)"
    by (simp_all add: experiments_def)
  have 1: "leastsqfunc junk_A parameters_0 (arguments_of (take 2 experiments @ [?e2]))
      = Inr (residuals_spec (6, 45000, - 10000, - 50) (take 2 experiments @ [?e2]))"
    unfolding es parameters_0_def by (rule leastsqfunc_layout [OF l])
  have "map (\<lambda>e. length (cA e)) (take 2 experiments @ [?e2])
      = map (\<lambda>e. length (times' e)) (take 2 experiments @ [?e2])"
    by (simp add: experiments_def)
  from length_residuals_spec [OF this]
  have 2: "length (residuals_spec (6, 45000, - 10000, - 50) (take 2 experiments @ [?e2])) = 25"
    by (simp add: experiments_def)
  show ?thesis
    using 1 2 by simp
qed


lemma alloc_keeps:
  assumes "alloc xs h = (a, h')"
  shows "lim h \<le> lim h'" and "\<forall>b<lim h. arrays h' b = arrays h b"
    and "a < lim h'" and "arrays h' a = xs"
  using assms by (auto simp: alloc_def)

lemma new_ExperimentData_deref:
  assumes "new_ExperimentData e h = (r, h')"
  shows "deref h' r = e" and "allocated h' r" and "lim h \<le> lim h'"
    and "\<forall>a<lim h. arrays h' a = arrays h a"
proof -
  obtain a_times h1 where 1: "alloc (times' e) h = (a_times, h1)"
    by (cases "alloc (times' e) h")
  obtain a_cA h2 where 2: "alloc (cA e) h1 = (a_cA, h2)"
    by (cases "alloc (cA e) h1")
  from assms have r: "r = (T e, cA_start e, a_times, a_cA)" and h': "h' = h2"
    by (simp_all add: new_ExperimentData_def 1 2)
  note k1 = alloc_keeps [OF 1]
  note k2 = alloc_keeps [OF 2]
  have t: "arrays h2 a_times = times' e"
    using k1(3,4) k2(2) by simp
  show "deref h' r = e"
    unfolding r h' by (simp add: deref_def t k2(4))
  have "a_times < lim h2"
    using k1(3) k2(1) by simp
  then show "allocated h' r"
    unfolding r h' by (simp add: allocated_def k2(3))
  show "lim h \<le> lim h'"
    unfolding h' using k1(1) k2(1) by simp
  show "\<forall>a<lim h. arrays h' a = arrays h a"
    unfolding h' using k1(1,2) k2(2) by simp
qed

lemma deref_cong:
  assumes "allocated h r" and "\<forall>a<lim h. arrays h' a = arrays h a"
  shows "deref h' r = deref h r"
  using assms by (cases r) (simp add: deref_def allocated_def)

lemma allocated_mono: "allocated h r \<Longrightarrow> lim h \<le> lim h' \<Longrightarrow> allocated h' r"
  by (cases r) (simp add: allocated_def)

lemma new_experiments_deref:
  assumes "new_experiments es h = (rs, h')"
  shows "map (deref h') rs = es \<and> (\<forall>r\<in>set rs. allocated h' r) \<and> lim h \<le> lim h'
       \<and> (\<forall>a<lim h. arrays h' a = arrays h a)"
  using assms
proof (induction es arbitrary: h rs h')
  case Nil
  then show ?case by simp
next
  case (Cons e es)
  obtain r h1 where n1: "new_ExperimentData e h = (r, h1)"
    by (cases "new_ExperimentData e h")
  obtain rs' h2 where n2: "new_experiments es h1 = (rs', h2)"
    by (cases "new_experiments es h1")
  from Cons.prems have eq: "rs = r # rs'" "h' = h2"
    by (simp_all add: n1 n2)
  note a = new_ExperimentData_deref [OF n1]
  from Cons.IH [OF n2] have b: "map (deref h2) rs' = es" "\<forall>r\<in>set rs'. allocated h2 r"
    "lim h1 \<le> lim h2" "\<forall>a<lim h1. arrays h2 a = arrays h1 a"
    by simp_all
  have d: "deref h2 r = e"
    using deref_cong [OF a(2) b(4)] a(1) by simp
  have al: "allocated h2 r"
    by (rule allocated_mono [OF a(2) b(3)])
  have 1: "map (deref h') rs = e # es"
    unfolding eq using d b(1) by simp
  have 2: "\<forall>r\<in>set rs. allocated h' r"
    unfolding eq using al b(2) by simp
  have 3: "lim h \<le> lim h'"
    unfolding eq using a(3) b(3) by simp
  have 4: "\<forall>a<lim h. arrays h' a = arrays h a"
    unfolding eq using a(3,4) b(4) by simp
  show ?case
    using 1 2 3 4 by (intro conjI)
qed

lemma cell_9_keeps:
  "lim h \<le> lim (cell_9 uninit trials h)"
  "\<forall>a<lim h. arrays (cell_9 uninit trials h) a = arrays h a"
proof -
  define ts where "ts = map (\<lambda>i. 10 + 10 * real i) [0..<10]"
  obtain t h1 where 1: "alloc ts h = (t, h1)"
    by (cases "alloc ts h")
  obtain tc h2 where 2: "alloc (arrays h1 t @ arrays h1 t @ arrays h1 t) h1 = (tc, h2)"
    by (cases "alloc (arrays h1 t @ arrays h1 t @ arrays h1 t) h1")
  obtain ca h3 where 3: "alloc C_A h2 = (ca, h3)"
    by (cases "alloc C_A h2")
  note k1 = alloc_keeps [OF 1]
  note k2 = alloc_keeps [OF 2]
  note k3 = alloc_keeps [OF 3]
  have k: "lim h \<le> lim h3" "\<forall>a<lim h. arrays h3 a = arrays h a"
    using k1(1,2) k2(1,2) k3(1,2) by simp_all
  have c: "cell_9 uninit trials h =
      solver_calls uninit trials (tc, ca, [10, 10, 10], [298.15, 308.15, 323.15], (n1, n1 + n2)) h3"
    unfolding cell_9_def ts_def [symmetric] by (simp only: 1 2 3 prod.case)
  note s = solver_calls_keeps [of h3 uninit trials
        "(tc, ca, [10, 10, 10], [298.15, 308.15, 323.15], (n1, n1 + n2))"]
  show "lim h \<le> lim (cell_9 uninit trials h)"
    unfolding c using s k(1) by simp
  show "\<forall>a<lim h. arrays (cell_9 uninit trials h) a = arrays h a"
    unfolding c using s k by simp
qed

text \<open>
  Claim C8, as the code has it. The three records the notebook constructs have ten times
  and ten concentrations each. No statement of the program changes a record after its
  construction: whatever the store was before the cell that constructs \<open>experiments\<close>,
  and whatever trial vectors the solver evaluates the assembler at, the records read
  after the fit what they read after construction. The same holds of any list of records
  constructed this way: the fit writes only into arrays it allocates itself.
\<close>

theorem experiments_lengths_and_arrays_kept:
  "map (\<lambda>e. length (times' e)) experiments = [10, 10, 10]
   \<and> map (\<lambda>e. length (cA e)) experiments = [10, 10, 10]
   \<and> map (deref (snd (cell_6 h))) (fst (cell_6 h)) = experiments
   \<and> map (deref (cell_9 uninit trials (snd (cell_6 h)))) (fst (cell_6 h)) = experiments
   \<and> map (deref (snd (new_experiments es h))) (fst (new_experiments es h)) = es
   \<and> map (deref (cell_9 uninit trials (snd (new_experiments es h)))) (fst (new_experiments es h)) = es"
proof -
  have g: "map (deref (snd (new_experiments es' h))) (fst (new_experiments es' h)) = es'
      \<and> map (deref (cell_9 uninit trials (snd (new_experiments es' h)))) (fst (new_experiments es' h)) = es'"
    for es'
  proof -
    obtain rs h' where n: "new_experiments es' h = (rs, h')"
      by (cases "new_experiments es' h")
    from new_experiments_deref [OF n]
    have d: "map (deref h') rs = es'" "\<forall>r\<in>set rs. allocated h' r"
      by simp_all
    have "deref (cell_9 uninit trials h') r = deref h' r" if "r \<in> set rs" for r
      using d(2) that by (intro deref_cong cell_9_keeps(2)) simp
    then have "map (deref (cell_9 uninit trials h')) rs = map (deref h') rs"
      by simp
    then show ?thesis
      using d(1) n by simp
  qed
  have l: "map (\<lambda>e. length (times' e)) experiments = [10, 10, 10]"
    "map (\<lambda>e. length (cA e)) experiments = [10, 10, 10]"
    by (simp_all add: experiments_def)
  show ?thesis
    unfolding cell_6_def using l g [of experiments] g [of es] by (intro conjI) blast+
qed

text \<open>
  Claim C8 as stated fails: the constructor accepts a record of three times and one
  concentration.
\<close>

theorem ExperimentData_unequal_lengths:
  "deref (snd (new_ExperimentData
                 \<lparr>T = 298.15, cA_start = 10, times' = [10, 20, 30], cA = [8.649]\<rparr> store_A))
         (fst (new_ExperimentData
                 \<lparr>T = 298.15, cA_start = 10, times' = [10, 20, 30], cA = [8.649]\<rparr> store_A))
     = \<lparr>T = 298.15, cA_start = 10, times' = [10, 20, 30], cA = [8.649]\<rparr>
   \<and> length (times' \<lparr>T = 298.15, cA_start = 10, times' = [10, 20, 30], cA = [8.649]\<rparr>) = 3
   \<and> length (cA \<lparr>T = 298.15, cA_start = 10, times' = [10, 20, 30], cA = [8.649]\<rparr>) = 1"
  by (simp add: new_ExperimentData_def alloc_def deref_def store_A_def)

section \<open>Uncertainty of the fitted parameters\<close>

text \<open>
  The cell that follows the fit. \<open>result\<close> and \<open>cov\<close> are the first two outputs of
  \<open>scipy.optimize.leastsq\<close>: the fitted parameter vector, and a square matrix or \<open>None\<close>.
  \<^verbatim>\<open>
  stderr = np.sqrt(np.diag(cov))

  optimized_parameters = ParameterSet(
      logA = round(result[0]),
      Ea = round(result[1]/1000) ,
      dH = round(result[2]/1000) ,
      dS = round(result[3])
      )
  standard_errors = ParameterSet(
      logA = round(stderr[0]),
      Ea = round(stderr[1]/1000) ,
      dH = round(stderr[2]/1000) ,
      dS = round(stderr[3])
      )

  error = []
  for i in range(len(result)):
      try:
          error.append(np.absolute(cov[i][i])**0.5)
      except:
          error.append( 0.00 )
          pfit_leastsq = result
      perr_leastsq = np.array(error)
  print (perr_leastsq)
  \<close>
\<close>

text \<open>
  A double-precision value that the cell can produce from real input: a number, or the
  NaN that \<open>np.sqrt\<close> returns for a negative argument (numpy prints a warning and
  raises nothing).
\<close>

datatype float64 = Num real | NaN

text \<open>
  \<open>np.diag\<close> of a two-dimensional array, given by its rows, is its main diagonal; of
  \<open>None\<close> it raises ValueError.
\<close>

definition np_diag :: "real list list option \<Rightarrow> py_error + real list" where
  "np_diag v =
     (case v of
        None \<Rightarrow> Inl ValueError
      | Some m \<Rightarrow>
          Inr (map (\<lambda>i. m ! i ! i)
                 [0..<min (length m) (case m of [] \<Rightarrow> 0 | row # _ \<Rightarrow> length row)]))"

definition np_sqrt :: "real \<Rightarrow> float64" where
  "np_sqrt x = (if x < 0 then NaN else Num (sqrt x))"

definition stderr :: "real list list option \<Rightarrow> py_error + float64 list" where
  "stderr cov = and_then (np_diag cov) (\<lambda>d. Inr (map np_sqrt d))"

text \<open>
  \<open>round\<close> without a number of digits, applied to a \<open>numpy.float64\<close> under the notebook's
  Python 3.5: the result is again a \<open>float64\<close> (the notebook prints \<open>logA=9.0\<close>), the
  nearest whole number, a tie going to the even neighbour (\<open>round_half_even\<close>, defined
  with the doubles above); NaN stays NaN.
\<close>

fun round_f64 :: "float64 \<Rightarrow> float64" where
  "round_f64 (Num x) = Num (round_half_even x)"
| "round_f64 NaN = NaN"

fun div_f64 :: "float64 \<Rightarrow> real \<Rightarrow> float64" where
  "div_f64 (Num x) c = Num (x / c)"
| "div_f64 NaN c = NaN"

text \<open>\<^verbatim>\<open>ParameterSet = namedtuple('ParameterSet', ['logA', 'Ea', 'dH', 'dS'])\<close>\<close>

record ParameterSet =
  logA :: float64
  Ea :: float64
  dH :: float64
  dS :: float64

definition starting_guess :: ParameterSet where
  "starting_guess = \<lparr>logA = Num 6, Ea = Num 45, dH = Num (- 10), dS = Num (- 50)\<rparr>"

definition optimized_parameters :: "real list \<Rightarrow> py_error + ParameterSet" where
  "optimized_parameters result =
     and_then (index result 0) (\<lambda>result_0.
     and_then (index result 1) (\<lambda>result_1.
     and_then (index result 2) (\<lambda>result_2.
     and_then (index result 3) (\<lambda>result_3.
     Inr \<lparr>logA = round_f64 (Num result_0),
          Ea = round_f64 (div_f64 (Num result_1) 1000),
          dH = round_f64 (div_f64 (Num result_2) 1000),
          dS = round_f64 (Num result_3)\<rparr>))))"

definition standard_errors :: "float64 list \<Rightarrow> py_error + ParameterSet" where
  "standard_errors stderr' =
     and_then (index stderr' 0) (\<lambda>stderr_0.
     and_then (index stderr' 1) (\<lambda>stderr_1.
     and_then (index stderr' 2) (\<lambda>stderr_2.
     and_then (index stderr' 3) (\<lambda>stderr_3.
     Inr \<lparr>logA = round_f64 stderr_0,
          Ea = round_f64 (div_f64 stderr_1 1000),
          dH = round_f64 (div_f64 stderr_2 1000),
          dS = round_f64 stderr_3\<rparr>))))"

text \<open>
  The loop over \<open>range(len(result))\<close>: \<open>cov[i][i]\<close> raises TypeError when \<open>cov\<close> is
  \<open>None\<close> and IndexError out of range, and the bare \<open>except\<close> then appends 0.
  \<open>perr_leastsq\<close> is bound inside the loop, so printing it after a loop of no iterations
  raises NameError.
\<close>

definition cov_entry :: "real list list option \<Rightarrow> nat \<Rightarrow> py_error + real" where
  "cov_entry cov i =
     (case cov of
        None \<Rightarrow> Inl TypeError
      | Some m \<Rightarrow> and_then (index m i) (\<lambda>row. index row i))"

fun error_loop :: "real list list option \<Rightarrow> nat list \<Rightarrow> real list \<Rightarrow> real list" where
  "error_loop cov [] error = error"
| "error_loop cov (i # is) error =
     error_loop cov is
       (error @ [case cov_entry cov i of Inr c \<Rightarrow> \<bar>c\<bar> powr 0.5 | Inl e \<Rightarrow> 0])"

definition perr_leastsq :: "real list \<Rightarrow> real list list option \<Rightarrow> py_error + real list" where
  "perr_leastsq result cov =
     (if result = [] then Inl NameError else Inr (error_loop cov [0..<length result] []))"

text \<open>
  The cell as a whole: the first exception ends it. It returns \<open>stderr\<close>,
  \<open>optimized_parameters\<close>, \<open>standard_errors\<close> and \<open>perr_leastsq\<close>.
\<close>

definition cell_10 :: "real list \<Rightarrow> real list list option \<Rightarrow>
    py_error + float64 list \<times> ParameterSet \<times> ParameterSet \<times> real list" where
  "cell_10 result cov =
     and_then (stderr cov) (\<lambda>stderr'.
     and_then (optimized_parameters result) (\<lambda>optimized.
     and_then (standard_errors stderr') (\<lambda>errors.
     and_then (perr_leastsq result cov) (\<lambda>perr.
     Inr (stderr', optimized, errors, perr)))))"

text \<open>
  The covariance matrix the notebook printed after its fit, to the nine digits shown. Its
  output ends with \<^verbatim>\<open>ParameterSet(logA=4.0, Ea=24.0, dH=9.0, dS=28.0)\<close> for the standard
  errors.
\<close>

definition cov_printed :: "real list list" where
  "cov_printed =
     [[17.0681232, 99321.3114, 13326.9099, 42.6675496],
      [99321.3114, 578365117, 79857727.6, 255404.512],
      [13326.9099, 79857727.6, 79086054.3, 251296.732],
      [42.6675496, 255404.512, 251296.732, 799.196786]]"

text \<open>
  The fit and the cell after it, in sequence.
  \<^verbatim>\<open>
  result, cov, infodict, mesg, ier = scipy.optimize.leastsq(leastsqfunc, parameters_0,
                                        args=arguments, full_output= 1)
  \<close>
  Of the five values the solver returns the notebook reads \<open>result\<close> and \<open>cov\<close>.
  \<open>infodict\<close>, which holds the residuals at the solution, \<open>mesg\<close> and \<open>ier\<close> are bound and
  never used. The data are a parameter here, so that the two cells can be run on
  other data than the notebook's.
\<close>

definition cells_9_10 ::
  "((real list \<Rightarrow> py_error + real list) \<Rightarrow> real list \<Rightarrow>
      real list \<times> real list list option \<times> 'i \<times> 'm \<times> 'n) \<Rightarrow>
    (nat \<Rightarrow> real) \<Rightarrow> arguments \<Rightarrow>
    py_error + float64 list \<times> ParameterSet \<times> ParameterSet \<times> real list" where
  "cells_9_10 leastsq uninit args =
     (case fit leastsq uninit parameters_0 args of
        (result, cov, infodict, mesg, ier) \<Rightarrow> cell_10 result cov)"

text \<open>
  The covariance as the specification defines it: the residual variance
  \<open>SSR / (n_obs - n_params)\<close>, where \<open>SSR\<close> is the sum of the squared residuals at the
  solution, times the inverse of \<open>J\<^sup>T J\<close>. The inverse is what \<open>leastsq\<close> returns as
  \<open>cov_x\<close>: by its documentation this matrix must be multiplied by the variance of the
  residuals to give the covariance of the parameter estimates.
\<close>

definition residual_variance :: "real list \<Rightarrow> nat \<Rightarrow> real" where
  "residual_variance fvec n_params =
     (\<Sum>r\<leftarrow>fvec. r * r) / (real (length fvec) - real n_params)"

definition covariance_spec :: "real list \<Rightarrow> real list list \<Rightarrow> real list list" where
  "covariance_spec fvec cov_x = map (map (\<lambda>c. residual_variance fvec 4 * c)) cov_x"


lemma length_4E:
  assumes "length xs = 4"
  obtains x0 x1 x2 x3 where "xs = [x0, x1, x2, x3]"
  using assms by (auto simp: length_Suc_conv numeral_eq_Suc)

lemma matrix_4E:
  assumes "map length m = [4, 4, 4, 4]"
  obtains r0 r1 r2 r3 where "m = [r0, r1, r2, r3]"
    and "length r0 = 4" and "length r1 = 4" and "length r2 = 4" and "length r3 = 4"
  using assms by (auto simp: map_eq_Cons_conv)

lemma upt_4: "[0..<4] = [0, 1, 2, 3]"
  by (simp add: upt_rec)

lemma stderr_4x4:
  assumes "map length m = [4, 4, 4, 4]"
  shows "stderr (Some m) =
     Inr [np_sqrt (m ! 0 ! 0), np_sqrt (m ! 1 ! 1), np_sqrt (m ! 2 ! 2), np_sqrt (m ! 3 ! 3)]"
proof -
  from assms obtain r0 r1 r2 r3 where "m = [r0, r1, r2, r3]" "length r0 = 4"
    by (rule matrix_4E)
  then show ?thesis
    by (simp add: stderr_def np_diag_def upt_4 numeral_2_eq_2 numeral_3_eq_3)
qed

lemma perr_4x4:
  assumes "map length m = [4, 4, 4, 4]" and "length result = 4"
  shows "perr_leastsq result (Some m) =
     Inr [sqrt \<bar>m ! 0 ! 0\<bar>, sqrt \<bar>m ! 1 ! 1\<bar>, sqrt \<bar>m ! 2 ! 2\<bar>, sqrt \<bar>m ! 3 ! 3\<bar>]"
proof -
  from assms(1) obtain r0 r1 r2 r3 where "m = [r0, r1, r2, r3]"
    "length r0 = 4" "length r1 = 4" "length r2 = 4" "length r3 = 4"
    by (rule matrix_4E)
  moreover from assms(2) have "result \<noteq> []" by auto
  ultimately show ?thesis
    using assms(2) by (simp add: perr_leastsq_def upt_4 cov_entry_def powr_half_sqrt)
qed

lemma round_half_even_int: "round_half_even x \<in> \<int>"
  by (simp add: round_half_even_def Let_def)

lemma round_half_even_near: "\<bar>round_half_even x - x\<bar> \<le> 1 / 2"
  unfolding round_half_even_def Let_def by (auto; linarith)

lemma round_half_even_ties:
  "round_half_even (1 / 2) = 0" "round_half_even (3 / 2) = 2" "round_half_even (5 / 2) = 2"
  "round_half_even (- 1 / 2) = 0" "round_half_even (- 75 / 2) = - 38"
  by (simp_all add: round_half_even_def Let_def)


lemma np_sqrt_nonneg: "0 \<le> x \<Longrightarrow> np_sqrt x = Num (sqrt x)"
  by (simp add: np_sqrt_def)

lemma np_sqrt_neg: "x < 0 \<Longrightarrow> np_sqrt x = NaN"
  by (simp add: np_sqrt_def)

lemma optimized_parameters_4:
  assumes "length result = 4"
  shows "optimized_parameters result =
     Inr \<lparr>logA = Num (round_half_even (result ! 0)),
          Ea = Num (round_half_even (result ! 1 / 1000)),
          dH = Num (round_half_even (result ! 2 / 1000)),
          dS = Num (round_half_even (result ! 3))\<rparr>"
proof -
  from assms obtain x0 x1 x2 x3 where "result = [x0, x1, x2, x3]"
    by (rule length_4E)
  then show ?thesis
    by (simp add: optimized_parameters_def numeral_2_eq_2 numeral_3_eq_3)
qed

lemma standard_errors_4:
  "standard_errors [Num s0, Num s1, Num s2, Num s3] =
     Inr \<lparr>logA = Num (round_half_even s0),
          Ea = Num (round_half_even (s1 / 1000)),
          dH = Num (round_half_even (s2 / 1000)),
          dS = Num (round_half_even s3)\<rparr>"
  by (simp add: standard_errors_def numeral_2_eq_2 numeral_3_eq_3)

lemma sqrt_squares:
  "sqrt 16 = 4" "sqrt 576000000 = 24000" "sqrt 81000000 = 9000" "sqrt 784 = 28"
  by (rule real_sqrt_unique; simp)+

lemma cell_10_4x4:
  assumes "length result = 4" and "map length cov = [4, 4, 4, 4]"
  shows "cell_10 result (Some cov) =
      Inr ([np_sqrt (cov ! 0 ! 0), np_sqrt (cov ! 1 ! 1), np_sqrt (cov ! 2 ! 2), np_sqrt (cov ! 3 ! 3)],
           \<lparr>logA = Num (round_half_even (result ! 0)),
            Ea = Num (round_half_even (result ! 1 / 1000)),
            dH = Num (round_half_even (result ! 2 / 1000)),
            dS = Num (round_half_even (result ! 3))\<rparr>,
           \<lparr>logA = round_f64 (np_sqrt (cov ! 0 ! 0)),
            Ea = round_f64 (div_f64 (np_sqrt (cov ! 1 ! 1)) 1000),
            dH = round_f64 (div_f64 (np_sqrt (cov ! 2 ! 2)) 1000),
            dS = round_f64 (np_sqrt (cov ! 3 ! 3))\<rparr>,
           [sqrt \<bar>cov ! 0 ! 0\<bar>, sqrt \<bar>cov ! 1 ! 1\<bar>, sqrt \<bar>cov ! 2 ! 2\<bar>, sqrt \<bar>cov ! 3 ! 3\<bar>])"
  by (simp add: cell_10_def stderr_4x4 [OF assms(2)] optimized_parameters_4 [OF assms(1)]
      perr_4x4 [OF assms(2,1)] standard_errors_def numeral_2_eq_2 numeral_3_eq_3)


lemma round_half_even_eqI:
  assumes "of_int n - 1 / 2 < x" and "x < of_int n + 1 / 2"
  shows "round_half_even x = of_int n"
proof -
  have "\<lfloor>x\<rfloor> = n \<or> \<lfloor>x\<rfloor> = n - 1"
    using assms by linarith
  then show ?thesis
    using assms unfolding round_half_even_def Let_def by (auto; linarith)
qed

lemma sqrt_between:
  assumes "0 \<le> a" and "a * a < y" and "0 \<le> b" and "y < b * b"
  shows "a < sqrt y" and "sqrt y < b"
proof -
  show "a < sqrt y"
    using assms(1,2) by (intro real_less_rsqrt) (simp add: power2_eq_square)
  show "sqrt y < b"
    using assms(3,4) by (intro real_less_lsqrt) (simp_all add: power2_eq_square)
qed

lemma standard_errors_of_cov_printed:
  "and_then (stderr (Some cov_printed)) standard_errors =
     Inr \<lparr>logA = Num 4, Ea = Num 24, dH = Num 9, dS = Num 28\<rparr>"
proof -
  have s0: "7 / 2 < sqrt 17.0681232" "sqrt 17.0681232 < 9 / 2"
    by (rule sqrt_between [where a = "7 / 2" and b = "9 / 2"]; simp)+
  have s1: "23500 < sqrt 578365117" "sqrt 578365117 < 24500"
    by (rule sqrt_between [where a = 23500 and b = 24500]; simp)+
  have s2: "8500 < sqrt 79086054.3" "sqrt 79086054.3 < 9500"
    by (rule sqrt_between [where a = 8500 and b = 9500]; simp)+
  have s3: "55 / 2 < sqrt 799.196786" "sqrt 799.196786 < 57 / 2"
    by (rule sqrt_between [where a = "55 / 2" and b = "57 / 2"]; simp)+
  have r: "round_half_even (sqrt 17.0681232) = 4"
    "round_half_even (sqrt 578365117 / 1000) = 24"
    "round_half_even (sqrt 79086054.3 / 1000) = 9"
    "round_half_even (sqrt 799.196786) = 28"
    using s0 s1 s2 s3
    by (simp_all add: round_half_even_eqI [where n = 4, simplified]
        round_half_even_eqI [where n = 24, simplified]
        round_half_even_eqI [where n = 9, simplified]
        round_half_even_eqI [where n = 28, simplified])
  have "map length cov_printed = [4, 4, 4, 4]"
    by (simp add: cov_printed_def)
  from stderr_4x4 [OF this]
  have "stderr (Some cov_printed) =
      Inr [Num (sqrt 17.0681232), Num (sqrt 578365117), Num (sqrt 79086054.3), Num (sqrt 799.196786)]"
    by (simp add: cov_printed_def np_sqrt_def)
  then show ?thesis
    using r by (simp add: standard_errors_4)
qed

text \<open>
  Claim C5, as the code has it. For every 4x4 covariance matrix with non-negative
  diagonal, \<open>stderr\<close> is exactly the element-wise square root of the diagonal, one
  non-negative value per parameter in the same order. Nothing fails when a diagonal entry
  is negative: \<open>stderr\<close> then holds NaN at that position, and the loop's \<open>perr_leastsq\<close>
  holds the square root of the absolute value.
\<close>

theorem stderr_sqrt_diag_or_nan:
  assumes "map length cov = [4, 4, 4, 4]"
  shows "(0 \<le> cov ! 0 ! 0 \<and> 0 \<le> cov ! 1 ! 1 \<and> 0 \<le> cov ! 2 ! 2 \<and> 0 \<le> cov ! 3 ! 3 \<longrightarrow>
           stderr (Some cov) =
             Inr [Num (sqrt (cov ! 0 ! 0)), Num (sqrt (cov ! 1 ! 1)),
                  Num (sqrt (cov ! 2 ! 2)), Num (sqrt (cov ! 3 ! 3))]
           \<and> 0 \<le> sqrt (cov ! 0 ! 0) \<and> 0 \<le> sqrt (cov ! 1 ! 1)
           \<and> 0 \<le> sqrt (cov ! 2 ! 2) \<and> 0 \<le> sqrt (cov ! 3 ! 3))
       \<and> stderr (Some cov) =
           Inr (map (\<lambda>i. if cov ! i ! i < 0 then NaN else Num (sqrt (cov ! i ! i))) [0, 1, 2, 3])
       \<and> (length result = 4 \<longrightarrow>
           perr_leastsq result (Some cov) =
             Inr (map (\<lambda>i. sqrt \<bar>cov ! i ! i\<bar>) [0, 1, 2, 3]))"
proof (intro conjI impI)
  assume "0 \<le> cov ! 0 ! 0 \<and> 0 \<le> cov ! 1 ! 1 \<and> 0 \<le> cov ! 2 ! 2 \<and> 0 \<le> cov ! 3 ! 3"
  then show "stderr (Some cov) =
             Inr [Num (sqrt (cov ! 0 ! 0)), Num (sqrt (cov ! 1 ! 1)),
                  Num (sqrt (cov ! 2 ! 2)), Num (sqrt (cov ! 3 ! 3))]"
    and "0 \<le> sqrt (cov ! 0 ! 0)" and "0 \<le> sqrt (cov ! 1 ! 1)"
    and "0 \<le> sqrt (cov ! 2 ! 2)" and "0 \<le> sqrt (cov ! 3 ! 3)"
    by (simp_all add: stderr_4x4 [OF assms] np_sqrt_nonneg)
next
  show "stderr (Some cov) =
      Inr (map (\<lambda>i. if cov ! i ! i < 0 then NaN else Num (sqrt (cov ! i ! i))) [0, 1, 2, 3])"
    by (simp add: stderr_4x4 [OF assms] np_sqrt_def)
next
  assume "length result = 4"
  then show "perr_leastsq result (Some cov) = Inr (map (\<lambda>i. sqrt \<bar>cov ! i ! i\<bar>) [0, 1, 2, 3])"
    by (simp add: perr_4x4 [OF assms])
qed

theorem stderr_sqrt_diag_or_nan_witness:
  "map length [[16, 0, 0, 0], [0, 4, 0, 0], [0, 0, 1, 0], [0, 0, 0, 0 :: real]] = [4, 4, 4, 4]
   \<and> length [9, 64000, - 12000, - 37 :: real] = 4
   \<and> stderr (Some [[16, 0, 0, 0], [0, 4, 0, 0], [0, 0, 1, 0], [0, 0, 0, 0]]) =
       Inr [Num (sqrt 16), Num 2, Num 1, Num 0]
   \<and> perr_leastsq [9, 64000, - 12000, - 37]
        (Some [[16, 0, 0, 0], [0, 4, 0, 0], [0, 0, 1, 0], [0, 0, 0, 0]]) =
       Inr [sqrt 16, 2, 1, 0]"
proof -
  let ?cov = "[[16, 0, 0, 0], [0, 4, 0, 0], [0, 0, 1, 0], [0, 0, 0, 0 :: real]]"
  have h: "map length ?cov = [4, 4, 4, 4]"
    by simp
  have d: "0 \<le> ?cov ! 0 ! 0 \<and> 0 \<le> ?cov ! 1 ! 1 \<and> 0 \<le> ?cov ! 2 ! 2 \<and> 0 \<le> ?cov ! 3 ! 3"
    by simp
  have r: "length [9, 64000, - 12000, - 37 :: real] = 4"
    by simp
  note t = stderr_sqrt_diag_or_nan [OF h, of "[9, 64000, - 12000, - 37]"]
  from t [THEN conjunct1, rule_format, OF d]
  have 1: "stderr (Some ?cov) = Inr [Num (sqrt 16), Num 2, Num 1, Num 0]"
    by simp
  from t [THEN conjunct2, THEN conjunct2, rule_format, OF r]
  have 2: "perr_leastsq [9, 64000, - 12000, - 37] (Some ?cov) = Inr [sqrt 16, 2, 1, 0]"
    by simp
  show ?thesis
    using h r 1 2 by blast
qed

text \<open>
  Claim C5 as stated fails: with \<open>- 1\<close> as first diagonal entry a value is returned, not
  an error.
\<close>

theorem stderr_negative_diagonal_no_error:
  "stderr (Some [[- 1, 0, 0, 0], [0, 1, 0, 0], [0, 0, 1, 0], [0, 0, 0, 1]]) =
     Inr [NaN, Num 1, Num 1, Num 1]
   \<and> perr_leastsq [9, 64000, - 12000, - 37]
        (Some [[- 1, 0, 0, 0], [0, 1, 0, 0], [0, 0, 1, 0], [0, 0, 0, 1]]) =
     Inr [1, 1, 1, 1]"
  by (simp add: stderr_4x4 perr_4x4 np_sqrt_def)


lemma cells_9_10_solver_output:
  assumes "fit leastsq uninit parameters_0 args = (result, cov, infodict, mesg, ier)"
  shows "cells_9_10 leastsq uninit args = cell_10 result cov"
  by (simp add: cells_9_10_def assms)



lemma residual_variance_nonneg: "n_params < length fvec \<Longrightarrow> 0 \<le> residual_variance fvec n_params"
  unfolding residual_variance_def
  by (intro divide_nonneg_nonneg sum_list_nonneg) auto

lemma round_f64_np_sqrt:
  "round_f64 (np_sqrt x) = (if x < 0 then NaN else Num (round_half_even (sqrt x)))"
  "round_f64 (div_f64 (np_sqrt x) 1000) = (if x < 0 then NaN else Num (round_half_even (sqrt x / 1000)))"
  by (simp_all add: np_sqrt_def)

lemma stderr_covariance_spec:
  assumes "map length cov_x = [4, 4, 4, 4]"
  shows "stderr (Some (covariance_spec fvec cov_x)) =
     Inr (map (\<lambda>i. np_sqrt (residual_variance fvec 4 * (cov_x ! i ! i))) [0, 1, 2, 3])"
proof -
  from assms obtain r0 r1 r2 r3 where m: "cov_x = [r0, r1, r2, r3]"
    "length r0 = 4" "length r1 = 4" "length r2 = 4" "length r3 = 4"
    by (rule matrix_4E)
  have "map length (covariance_spec fvec cov_x) = [4, 4, 4, 4]"
    using m by (simp add: covariance_spec_def)
  from stderr_4x4 [OF this] show ?thesis
    using m by (simp add: covariance_spec_def numeral_2_eq_2 numeral_3_eq_3)
qed

lemma np_sqrt_scaled_differs:
  assumes "0 < c" and "0 \<le> v" and "v \<noteq> 1"
  shows "np_sqrt c \<noteq> np_sqrt (v * c)"
proof -
  have "sqrt c \<noteq> sqrt (v * c)"
    using assms by (simp add: real_sqrt_eq_iff)
  then show ?thesis
    using assms by (simp add: np_sqrt_def)
qed




text \<open>
  Claim C10, as the code has it. For a fitted vector of four parameters and a 4x4
  covariance matrix, the published \<open>optimized_parameters\<close> are \<open>round\<close> of the raw \<open>logA\<close>
  and \<open>dS\<close> and \<open>round\<close> of the raw \<open>Ea\<close> and \<open>dH\<close> divided by 1000: whole numbers, at
  most one half away from what is rounded. The published \<open>standard_errors\<close> are the same
  transformations of \<open>stderr\<close>: a whole number where the diagonal entry of the
  covariance is not negative, and NaN where it is negative.
\<close>

theorem published_records_rounded_or_nan:
  assumes "length result = 4" and "map length cov = [4, 4, 4, 4]"
  shows "cell_10 result (Some cov) =
      Inr ([np_sqrt (cov ! 0 ! 0), np_sqrt (cov ! 1 ! 1), np_sqrt (cov ! 2 ! 2), np_sqrt (cov ! 3 ! 3)],
           \<lparr>logA = Num (round_half_even (result ! 0)),
            Ea = Num (round_half_even (result ! 1 / 1000)),
            dH = Num (round_half_even (result ! 2 / 1000)),
            dS = Num (round_half_even (result ! 3))\<rparr>,
           \<lparr>logA = round_f64 (np_sqrt (cov ! 0 ! 0)),
            Ea = round_f64 (div_f64 (np_sqrt (cov ! 1 ! 1)) 1000),
            dH = round_f64 (div_f64 (np_sqrt (cov ! 2 ! 2)) 1000),
            dS = round_f64 (np_sqrt (cov ! 3 ! 3))\<rparr>,
           [sqrt \<bar>cov ! 0 ! 0\<bar>, sqrt \<bar>cov ! 1 ! 1\<bar>, sqrt \<bar>cov ! 2 ! 2\<bar>, sqrt \<bar>cov ! 3 ! 3\<bar>])
    \<and> round_f64 (np_sqrt x) = (if x < 0 then NaN else Num (round_half_even (sqrt x)))
    \<and> round_f64 (div_f64 (np_sqrt x) 1000) =
        (if x < 0 then NaN else Num (round_half_even (sqrt x / 1000)))
    \<and> round_half_even y \<in> \<int> \<and> \<bar>round_half_even y - y\<bar> \<le> 1 / 2"
  using cell_10_4x4 [OF assms] round_f64_np_sqrt [of x] round_half_even_int [of y]
    round_half_even_near [of y]
  by (intro conjI)

theorem published_records_rounded_or_nan_witness:
  "length [9.4, 64400, - 11600, - 37.5 :: real] = 4
   \<and> map length [[16, 0, 0, 0], [0, 576000000, 0, 0], [0, 0, 81000000, 0], [0, 0, 0, 784 :: real]]
       = [4, 4, 4, 4]
   \<and> cell_10 [9.4, 64400, - 11600, - 37.5]
        (Some [[16, 0, 0, 0], [0, 576000000, 0, 0], [0, 0, 81000000, 0], [0, 0, 0, 784]]) =
      Inr ([Num 4, Num 24000, Num 9000, Num 28],
           \<lparr>logA = Num 9, Ea = Num 64, dH = Num (- 12), dS = Num (- 38)\<rparr>,
           \<lparr>logA = Num 4, Ea = Num 24, dH = Num 9, dS = Num 28\<rparr>,
           [4, 24000, 9000, 28])
   \<and> round_f64 (np_sqrt (- 4)) = NaN
   \<and> round_half_even (- 37.5) = - 38"
proof -
  let ?result = "[9.4, 64400, - 11600, - 37.5 :: real]"
  let ?cov = "[[16, 0, 0, 0], [0, 576000000, 0, 0], [0, 0, 81000000, 0], [0, 0, 0, 784 :: real]]"
  have h: "length ?result = 4" "map length ?cov = [4, 4, 4, 4]"
    by simp_all
  have r: "round_half_even (47 / 5) = 9" "round_half_even (64400 / 1000) = 64"
    "round_half_even (- 11600 / 1000) = - 12" "round_half_even (- 75 / 2) = - 38"
    "round_half_even 4 = 4" "round_half_even (24000 / 1000) = 24"
    "round_half_even (9000 / 1000) = 9" "round_half_even 28 = 28"
    by (simp_all add: round_half_even_def Let_def)
  note t = published_records_rounded_or_nan [OF h, of "- 4" 0]
  from t [THEN conjunct1]
  have 1: "cell_10 ?result (Some ?cov) =
      Inr ([Num 4, Num 24000, Num 9000, Num 28],
           \<lparr>logA = Num 9, Ea = Num 64, dH = Num (- 12), dS = Num (- 38)\<rparr>,
           \<lparr>logA = Num 4, Ea = Num 24, dH = Num 9, dS = Num 28\<rparr>,
           [4, 24000, 9000, 28])"
    using r by (simp add: sqrt_squares np_sqrt_def)
  from t [THEN conjunct2, THEN conjunct1]
  have 2: "round_f64 (np_sqrt (- 4)) = NaN"
    by simp
  have 3: "round_half_even (- 37.5) = - 38"
    using r(4) by simp
  show ?thesis
    using h 1 2 3 by blast
qed

text \<open>
  Claim C10 as stated fails: with \<open>- 4\<close> as first diagonal entry of the covariance the
  published standard error of \<open>logA\<close> is NaN, not a whole number.
\<close>

theorem standard_error_nan_not_whole:
  "cell_10 [9, 64000, - 12000, - 37]
     (Some [[- 4, 0, 0, 0], [0, 1, 0, 0], [0, 0, 1, 0], [0, 0, 0, 1]]) =
   Inr ([NaN, Num 1, Num 1, Num 1],
        \<lparr>logA = Num 9, Ea = Num 64, dH = Num (- 12), dS = Num (- 37)\<rparr>,
        \<lparr>logA = NaN, Ea = Num 0, dH = Num 0, dS = Num 1\<rparr>,
        [2, 1, 1, 1])"
proof -
  have r: "round_half_even 9 = 9" "round_half_even (64000 / 1000) = 64"
    "round_half_even (- 12000 / 1000) = - 12" "round_half_even (- 37) = - 37"
    "round_half_even 1 = 1" "round_half_even (1 / 1000) = 0"
    by (simp_all add: round_half_even_def Let_def)
  show ?thesis
    using r by (simp add: cell_10_4x4 np_sqrt_def)
qed

text \<open>
  Claim C4 does not hold of the code. The matrix \<open>cov\<close> that the solver returns goes into
  \<open>np.sqrt(np.diag(cov))\<close> as it is: whatever the solver returns as residuals, message
  and flag, the cell computes from \<open>result\<close> and \<open>cov\<close> alone, and no factor
  \<open>SSR / (n_obs - 4)\<close> is applied anywhere. For a 4x4 matrix with a positive diagonal
  entry and residuals whose variance is not 1, the standard errors of the code differ
  from those of the covariance the specification defines. The cell that declares
  \<open>standard_errors\<close> says that they are to be one sigma.
\<close>

theorem stderr_without_residual_variance:
  assumes "fit leastsq uninit parameters_0 args = (result, Some cov_x, infodict, mesg, ier)"
    and "map length cov_x = [4, 4, 4, 4]" and "i < 4" and "0 < cov_x ! i ! i"
    and "4 < length fvec" and "residual_variance fvec 4 \<noteq> 1"
  shows "cells_9_10 leastsq uninit args = cell_10 result (Some cov_x)
       \<and> stderr (Some cov_x) = Inr (map (\<lambda>i. np_sqrt (cov_x ! i ! i)) [0, 1, 2, 3])
       \<and> stderr (Some (covariance_spec fvec cov_x)) =
           Inr (map (\<lambda>i. np_sqrt (residual_variance fvec 4 * (cov_x ! i ! i))) [0, 1, 2, 3])
       \<and> np_sqrt (cov_x ! i ! i) \<noteq> np_sqrt (residual_variance fvec 4 * (cov_x ! i ! i))
       \<and> stderr (Some cov_x) \<noteq> stderr (Some (covariance_spec fvec cov_x))"
proof -
  have v: "0 \<le> residual_variance fvec 4"
    using assms(5) by (intro residual_variance_nonneg) simp
  have d: "np_sqrt (cov_x ! i ! i) \<noteq> np_sqrt (residual_variance fvec 4 * (cov_x ! i ! i))"
    by (rule np_sqrt_scaled_differs [OF assms(4) v assms(6)])
  have 1: "stderr (Some cov_x) = Inr (map (\<lambda>i. np_sqrt (cov_x ! i ! i)) [0, 1, 2, 3])"
    by (simp add: stderr_4x4 [OF assms(2)])
  have 2: "stderr (Some (covariance_spec fvec cov_x)) =
           Inr (map (\<lambda>i. np_sqrt (residual_variance fvec 4 * (cov_x ! i ! i))) [0, 1, 2, 3])"
    by (rule stderr_covariance_spec [OF assms(2)])
  have "i \<in> {0, 1, 2, 3}"
    using assms(3) by auto
  then have "map (\<lambda>i. np_sqrt (cov_x ! i ! i)) [0, 1, 2, 3]
      \<noteq> map (\<lambda>i. np_sqrt (residual_variance fvec 4 * (cov_x ! i ! i))) [0, 1, 2, 3]"
    using d by auto
  then have 3: "stderr (Some cov_x) \<noteq> stderr (Some (covariance_spec fvec cov_x))"
    unfolding 1 2 by simp
  show ?thesis
    using cells_9_10_solver_output [OF assms(1)] 1 2 d 3
    by (intro conjI)
qed

theorem stderr_without_residual_variance_witness:
  "fit (\<lambda>f p. ([9, 64000, - 12000, - 37 :: real], Some cov_printed,
                 replicate 30 (1 / 10 :: real), ''converged'', 1 :: int))
       junk_A parameters_0 arguments =
     ([9, 64000, - 12000, - 37], Some cov_printed, replicate 30 (1 / 10), ''converged'', 1)
   \<and> map length cov_printed = [4, 4, 4, 4] \<and> (0::nat) < 4 \<and> 0 < cov_printed ! 0 ! 0
   \<and> 4 < length (replicate 30 (1 / 10 :: real))
   \<and> residual_variance (replicate 30 (1 / 10)) 4 = 3 / 260
   \<and> cells_9_10 (\<lambda>f p. ([9, 64000, - 12000, - 37], Some cov_printed, replicate 30 (1 / 10 :: real),
                           ''converged'', 1 :: int)) junk_A arguments =
        cell_10 [9, 64000, - 12000, - 37] (Some cov_printed)
   \<and> stderr (Some cov_printed) =
        Inr [np_sqrt 17.0681232, np_sqrt 578365117, np_sqrt 79086054.3, np_sqrt 799.196786]
   \<and> stderr (Some (covariance_spec (replicate 30 (1 / 10)) cov_printed)) =
        Inr [np_sqrt (3 / 260 * 17.0681232), np_sqrt (3 / 260 * 578365117),
             np_sqrt (3 / 260 * 79086054.3), np_sqrt (3 / 260 * 799.196786)]
   \<and> stderr (Some cov_printed) \<noteq> stderr (Some (covariance_spec (replicate 30 (1 / 10)) cov_printed))"
proof -
  let ?solver = "\<lambda>(f :: real list \<Rightarrow> py_error + real list) (p :: real list).
      ([9, 64000, - 12000, - 37 :: real], Some cov_printed, replicate 30 (1 / 10 :: real),
       ''converged'', 1 :: int)"
  have s: "fit ?solver junk_A parameters_0 arguments =
     ([9, 64000, - 12000, - 37], Some cov_printed, replicate 30 (1 / 10), ''converged'', 1)"
    by (simp add: fit_def)
  have h: "map length cov_printed = [4, 4, 4, 4]" "(0::nat) < 4" "0 < cov_printed ! 0 ! 0"
    "4 < length (replicate 30 (1 / 10 :: real))"
    by (simp_all add: cov_printed_def)
  have v: "residual_variance (replicate 30 (1 / 10)) 4 = 3 / 260"
    by (simp add: residual_variance_def sum_list_replicate)
  then have n: "residual_variance (replicate 30 (1 / 10)) 4 \<noteq> 1"
    by simp
  have e: "cov_printed ! 0 ! 0 = 17.0681232" "cov_printed ! 1 ! 1 = 578365117"
    "cov_printed ! 2 ! 2 = 79086054.3" "cov_printed ! 3 ! 3 = 799.196786"
    by (simp_all add: cov_printed_def numeral_2_eq_2 numeral_3_eq_3)
  note t = stderr_without_residual_variance [OF s h n]
  from t have 1: "cells_9_10 ?solver junk_A arguments =
        cell_10 [9, 64000, - 12000, - 37] (Some cov_printed)"
    by (rule conjunct1)
  from t [THEN conjunct2, THEN conjunct1]
  have 2: "stderr (Some cov_printed) =
        Inr [np_sqrt 17.0681232, np_sqrt 578365117, np_sqrt 79086054.3, np_sqrt 799.196786]"
    using e by simp
  from t [THEN conjunct2, THEN conjunct2, THEN conjunct1]
  have 3: "stderr (Some (covariance_spec (replicate 30 (1 / 10)) cov_printed)) =
        Inr [np_sqrt (3 / 260 * 17.0681232), np_sqrt (3 / 260 * 578365117),
             np_sqrt (3 / 260 * 79086054.3), np_sqrt (3 / 260 * 799.196786)]"
    using e v by simp
  from t have 4: "stderr (Some cov_printed)
      \<noteq> stderr (Some (covariance_spec (replicate 30 (1 / 10)) cov_printed))"
    by blast
  show ?thesis
    using s h v 1 2 3 4 by blast
qed




end
